theory Spec2Isabelle
  imports Main "HOL-Library.Sublist" "HOL-Library.AList"
begin

section \<open>Python strings\<close>

text \<open>
  A Python \<open>str\<close> is modelled as a \<open>string\<close>: the list of its code points, a \<open>char\<close> being
  the code point of that number.  The model therefore covers the text whose code points lie below
  256 (ASCII and the Latin-1 supplement); on that text \<open>strip\<close>, \<open>lower\<close>, \<open>int\<close> and the
  comparisons behave as in Python, and \<open>upper\<close> does with the two exceptions named at
  \<open>upper_char\<close>.
\<close>

definition is_space :: "char \<Rightarrow> bool" where
  \<comment> \<open>\<open>str.isspace\<close> on one character, which is what \<open>strip()\<close> removes: TAB, LF, VT, FF, CR,
      FS, GS, RS, US, SPACE, NEL (U+0085) and NO-BREAK SPACE (U+00A0).\<close>
  "is_space c =
     (let n = (of_char c :: nat)
      in (9 \<le> n \<and> n \<le> 13) \<or> (28 \<le> n \<and> n \<le> 32) \<or> n = 133 \<or> n = 160)"

definition py_strip :: "string \<Rightarrow> string" where
  \<comment> \<open>\<open>s.strip()\<close>\<close>
  "py_strip s = rev (dropWhile is_space (rev (dropWhile is_space s)))"

definition upper_char :: "char \<Rightarrow> string" where
  \<comment> \<open>\<open>c.upper()\<close>: a to z and the Latin-1 small letters move down by 32 (U+00F7 is the
      division sign), U+00DF becomes SS.  U+00B5 and U+00FF have their capitals at U+039C and
      U+0178, beyond the characters of the model; they are left in place, which no comparison
      with a word of ASCII letters can tell apart.\<close>
  "upper_char c =
     (let n = (of_char c :: nat)
      in if (97 \<le> n \<and> n \<le> 122) \<or> (224 \<le> n \<and> n \<le> 254 \<and> n \<noteq> 247) then [char_of (n - 32)]
         else if n = 223 then ''SS''
         else [c])"

definition lower_char :: "char \<Rightarrow> char" where
  \<comment> \<open>\<open>c.lower()\<close>: A to Z and the Latin-1 capital letters move up by 32 (U+00D7 is the
      multiplication sign).\<close>
  "lower_char c =
     (let n = (of_char c :: nat)
      in if (65 \<le> n \<and> n \<le> 90) \<or> (192 \<le> n \<and> n \<le> 222 \<and> n \<noteq> 215) then char_of (n + 32)
         else c)"

definition py_upper :: "string \<Rightarrow> string" where
  \<comment> \<open>\<open>s.upper()\<close>\<close>
  "py_upper s = concat (map upper_char s)"

definition py_lower :: "string \<Rightarrow> string" where
  \<comment> \<open>\<open>s.lower()\<close>\<close>
  "py_lower s = map lower_char s"

fun py_in :: "string \<Rightarrow> string \<Rightarrow> bool" where
  \<comment> \<open>\<open>sub in s\<close>\<close>
  "py_in sub [] = (sub = [])"
| "py_in sub (c # cs) = (prefix sub (c # cs) \<or> py_in sub cs)"

fun split_once :: "string \<Rightarrow> string \<Rightarrow> (string \<times> string) option" where
  \<comment> \<open>The text before and after the leftmost occurrence of a non-empty separator.\<close>
  "split_once sep [] = None"
| "split_once sep (c # cs) =
     (if prefix sep (c # cs) then Some ([], drop (length sep) (c # cs))
      else map_option (\<lambda>(a, b). (c # a, b)) (split_once sep cs))"

lemma split_once_shorter:
  "split_once sep s = Some (a, b) \<Longrightarrow> sep \<noteq> [] \<Longrightarrow> length b < length s"
  by (induction s arbitrary: a) (auto split: if_splits)

function py_split :: "string \<Rightarrow> string \<Rightarrow> string list" where
  \<comment> \<open>\<open>s.split(sep)\<close>; every caller passes a non-empty literal separator
      (Python raises ValueError on an empty one).\<close>
  "py_split sep s =
     (if sep = [] then [s]
      else case split_once sep s of
             None \<Rightarrow> [s]
           | Some (a, b) \<Rightarrow> a # py_split sep b)"
  by pat_completeness auto
termination
  by (relation "measure (\<lambda>(sep, s). length s)") (auto dest: split_once_shorter)

definition py_split1 :: "string \<Rightarrow> string \<Rightarrow> string list" where
  \<comment> \<open>\<open>s.split(sep, 1)\<close>\<close>
  "py_split1 sep s = (case split_once sep s of None \<Rightarrow> [s] | Some (a, b) \<Rightarrow> [a, b])"

definition is_digit :: "char \<Rightarrow> bool" where
  "is_digit c = (let n = (of_char c :: nat) in 48 \<le> n \<and> n \<le> 57)"

fun digits_ok :: "string \<Rightarrow> bool" where
  \<comment> \<open>Decimal digits, single underscores allowed between two digits.\<close>
  "digits_ok [] = False"
| "digits_ok [c] = is_digit c"
| "digits_ok (c # d # cs) =
     (is_digit c \<and> (if d = CHR ''_'' then digits_ok cs else digits_ok (d # cs)))"

definition digits_value :: "string \<Rightarrow> int" where
  "digits_value ds = foldl (\<lambda>a c. 10 * a + (of_char c - 48)) 0 ds"

definition int_space :: "char \<Rightarrow> bool" where
  \<comment> \<open>The whitespace \<open>int()\<close> skips around a number: TAB, LF, VT, FF, CR and SPACE, and the
      whitespace outside ASCII (NEL, NO-BREAK SPACE), which it reads as a space.  FS, GS, RS and
      US are not skipped.\<close>
  "int_space c =
     (let n = (of_char c :: nat) in (9 \<le> n \<and> n \<le> 13) \<or> n = 32 \<or> n = 133 \<or> n = 160)"

definition py_int :: "string \<Rightarrow> int option" where
  \<comment> \<open>\<open>int(s)\<close>: surrounding whitespace, an optional sign, decimal digits with single
      underscores between them; \<open>None\<close> is ValueError.  Below code point 256 the decimal digits
      are 0 to 9.  The interpreter's limit on the number of digits (4300 by default, from
      Python 3.11) is left out.\<close>
  "py_int s =
     (let t = rev (dropWhile int_space (rev (dropWhile int_space s)));
          (sgn, body) =
            (case t of
               [] \<Rightarrow> (1, [])
             | c # r \<Rightarrow> if c = CHR ''+'' then (1, r) else if c = CHR ''-'' then (- 1, r) else (1, t))
      in if digits_ok body
         then Some (sgn * digits_value (filter (\<lambda>c. c \<noteq> CHR ''_'') body))
         else None)"

function str_nat :: "nat \<Rightarrow> string" where
  \<comment> \<open>\<open>str(n)\<close> for \<open>n \<ge> 0\<close>\<close>
  "str_nat n = (if n < 10 then [char_of (48 + n)] else str_nat (n div 10) @ [char_of (48 + n mod 10)])"
  by pat_completeness auto
termination
  by (relation "measure id") auto

definition zfill :: "nat \<Rightarrow> string \<Rightarrow> string" where
  \<comment> \<open>\<open>s.zfill(width)\<close>: zeros go after a leading sign.\<close>
  "zfill width s =
     (if length s \<ge> width then s
      else case s of
             c # r \<Rightarrow> if c = CHR ''+'' \<or> c = CHR ''-''
                      then c # replicate (width - length s) (CHR ''0'') @ r
                      else replicate (width - length s) (CHR ''0'') @ s
           | [] \<Rightarrow> replicate width (CHR ''0''))"

section \<open>Calendar dates\<close>

type_synonym date = "int \<times> int \<times> int"  \<comment> \<open>year, month, day\<close>

definition is_leap :: "int \<Rightarrow> bool" where
  "is_leap y = (y mod 4 = 0 \<and> (y mod 100 \<noteq> 0 \<or> y mod 400 = 0))"

definition days_in_month :: "int \<Rightarrow> int \<Rightarrow> int" where
  "days_in_month y m =
     (if m = 2 then (if is_leap y then 29 else 28)
      else if m = 4 \<or> m = 6 \<or> m = 9 \<or> m = 11 then 30 else 31)"

definition py_datetime :: "int \<Rightarrow> int \<Rightarrow> int \<Rightarrow> date option" where
  \<comment> \<open>\<open>datetime(year, month, day).date()\<close>; \<open>None\<close> is ValueError (or OverflowError).\<close>
  "py_datetime y m d =
     (if 1 \<le> y \<and> y \<le> 9999 \<and> 1 \<le> m \<and> m \<le> 12 \<and> 1 \<le> d \<and> d \<le> days_in_month y m
      then Some (y, m, d) else None)"

fun date_gt :: "date \<Rightarrow> date \<Rightarrow> bool" where
  \<comment> \<open>\<open>a > b\<close> on \<open>datetime.date\<close>\<close>
  "date_gt (y1, m1, d1) (y2, m2, d2) =
     (y1 > y2 \<or> (y1 = y2 \<and> (m1 > m2 \<or> (m1 = m2 \<and> d1 > d2))))"

definition is_date_in_future :: "date \<Rightarrow> string \<Rightarrow> bool" where
  \<comment> \<open>The first argument is the date \<open>datetime.now().date()\<close> returns.
      Every exception inside the \<open>try\<close> gives \<open>False\<close>.\<close>
  "is_date_in_future today block_date =
     (case py_split ''-'' block_date of
        [day, month, year] \<Rightarrow>
          (case py_int year of
             None \<Rightarrow> False
           | Some y \<Rightarrow>
               (case py_int month of
                  None \<Rightarrow> False
                | Some m \<Rightarrow>
                    (case py_int day of
                       None \<Rightarrow> False
                     | Some d \<Rightarrow>
                         (case py_datetime y m d of
                            None \<Rightarrow> False
                          | Some block_date_only \<Rightarrow> date_gt block_date_only today))))
      | _ \<Rightarrow> False)"

section \<open>mikrotik\_manager: bindings and the client cache\<close>

record binding =
  bid :: nat  \<comment> \<open>\<open>binding['id']\<close>, assigned by the router\<close>
  mac_address :: string  \<comment> \<open>\<open>binding.get('mac-address', '')\<close>\<close>
  btype :: string  \<comment> \<open>\<open>binding.get('type')\<close>: \<open>bypassed\<close>, \<open>blocked\<close>, \<open>regular\<close>\<close>
  comment :: string  \<comment> \<open>\<open>binding.get('comment', '')\<close>\<close>

text \<open>
  \<open>clients_cache\<close> is a Python dict: an association list in insertion order.  Assigning to a
  key that is present replaces its value and keeps its position (\<open>AList.update\<close>).
\<close>

type_synonym clients = "(string \<times> binding) list"

definition extract_client_name :: "string \<Rightarrow> string" where
  \<comment> \<open>\<open>_extract_client_name\<close>: \<open>full_comment.split(' @')[0].strip()\<close>\<close>
  "extract_client_name full_comment = py_strip (hd (py_split '' @'' full_comment))"

fun load_clients_loop :: "binding list \<Rightarrow> clients \<Rightarrow> clients" where
  \<comment> \<open>The \<open>for binding in bindings\<close> loop of \<open>_load_clients\<close>.\<close>
  "load_clients_loop [] clients = clients"
| "load_clients_loop (binding # bindings) clients =
     (if comment binding \<noteq> []
      then load_clients_loop bindings
             (AList.update (extract_client_name (comment binding)) binding clients)
      else load_clients_loop bindings clients)"

definition find_client_flexible :: "clients \<Rightarrow> string \<Rightarrow> binding option" where
  "find_client_flexible cache client_name0 =
     (let client_name = py_strip client_name0 in
      case map_of cache client_name of
        Some exact_match \<Rightarrow> Some exact_match
      | None \<Rightarrow>
          (case find (\<lambda>(cached_name, b). py_lower cached_name = py_lower client_name) cache of
             Some (cached_name, b) \<Rightarrow> Some b
           | None \<Rightarrow>
               (case find (\<lambda>(cached_name, b). py_in (py_lower client_name) (py_lower cached_name))
                       cache of
                  Some (cached_name, b) \<Rightarrow> Some b
                | None \<Rightarrow> None)))"

definition find_client_in_ip_bindings :: "clients \<Rightarrow> string \<Rightarrow> binding option" where
  "find_client_in_ip_bindings cache client_name =
     (case map_of cache (py_strip client_name) of
        Some exact_match \<Rightarrow> Some exact_match
      | None \<Rightarrow> find_client_flexible cache client_name)"

definition comment_phone :: "string \<Rightarrow> string" where
  \<comment> \<open>The branches of \<open>get_client_phone\<close> on the comment it found.\<close>
  "comment_phone c =
     (if py_in '' @'' c then py_strip (py_split1 '' @'' c ! 1)
      else if py_in ''@'' c then py_strip (py_split1 ''@'' c ! 1)
      else [])"

definition get_client_phone :: "clients \<Rightarrow> string \<Rightarrow> string" where
  "get_client_phone cache client_name =
     (case find_client_in_ip_bindings cache client_name of
        Some b \<Rightarrow> comment_phone (comment b)
      | None \<Rightarrow> [])"

definition get_client_mac :: "clients \<Rightarrow> string \<Rightarrow> string" where
  "get_client_mac cache client_name =
     (case find_client_in_ip_bindings cache client_name of
        Some b \<Rightarrow> mac_address b
      | None \<Rightarrow> [])"

definition is_client_blocked :: "clients \<Rightarrow> string \<Rightarrow> bool" where
  "is_client_blocked cache client_name =
     (case find_client_in_ip_bindings cache client_name of
        Some b \<Rightarrow> btype b = ''blocked''
      | None \<Rightarrow> False)"

definition is_client_active :: "clients \<Rightarrow> string \<Rightarrow> bool" where
  "is_client_active cache client_name =
     (case find_client_in_ip_bindings cache client_name of
        Some b \<Rightarrow> btype b = ''bypassed''
      | None \<Rightarrow> False)"

definition is_unauthorized_user :: "string \<Rightarrow> bool" where
  "is_unauthorized_user c = (if c = [] then False else prefix ''ZZZZ=Blocked unauthorized'' c)"

definition name_comment :: "string \<Rightarrow> string \<Rightarrow> string" where
  \<comment> \<open>\<open>new_comment\<close> of \<open>update_client_name\<close>, from \<open>current_comment\<close> and \<open>new_name\<close>.\<close>
  "name_comment current_comment new_name =
     (if py_in '' @'' current_comment
      then py_strip new_name @ '' @'' @ (py_split1 '' @'' current_comment ! 1)
      else if py_in ''@'' current_comment
      then py_strip new_name @ '' @'' @ (py_split1 ''@'' current_comment ! 1)
      else py_strip new_name)"

definition phone_comment :: "string \<Rightarrow> string \<Rightarrow> string" where
  \<comment> \<open>\<open>new_comment\<close> of \<open>update_client_phone\<close>, from \<open>current_comment\<close> and \<open>new_phone\<close>.\<close>
  "phone_comment current_comment new_phone =
     (if py_in '' @'' current_comment
      then hd (py_split1 '' @'' current_comment) @ '' @'' @ py_strip new_phone
      else if py_in ''@'' current_comment
      then hd (py_split1 ''@'' current_comment) @ '' @'' @ py_strip new_phone
      else current_comment @ '' @'' @ py_strip new_phone)"

section \<open>mikrotik\_manager: the router\<close>

text \<open>
  The router behind \<open>self.api\<close> is an external collaborator.  Its state is the binding list,
  the DHCP lease and ARP tables and the scheduler; \<open>failures\<close> lists, for the round trips to
  come, whether each one raises (an empty list: every call is answered).  The manager object
  adds \<open>clients_cache\<close>.
\<close>

record lease =
  address :: string  \<comment> \<open>\<open>.get('address', '')\<close>\<close>
  lease_mac :: string  \<comment> \<open>\<open>.get('mac-address', '')\<close>\<close>

record schedule =
  sid :: nat
  sname :: string
  start_date :: string
  start_time :: string
  sinterval :: string
  on_event :: string
  policy :: string

record mikrotik =
  ip_bindings :: "binding list"
  dhcp_leases :: "lease list"
  arp_entries :: "lease list"
  scheduler :: "schedule list"
  failures :: "bool list"
  clients_cache :: clients

definition api_raises :: "mikrotik \<Rightarrow> bool \<times> mikrotik" where
  \<comment> \<open>One round trip: whether it raises, and the state with that outcome consumed.\<close>
  "api_raises m = (case failures m of [] \<Rightarrow> (False, m) | f # fs \<Rightarrow> (f, m\<lparr>failures := fs\<rparr>))"

definition fresh_id :: "nat list \<Rightarrow> nat" where
  "fresh_id ids = Suc (fold max ids 0)"

definition get_ip_bindings :: "mikrotik \<Rightarrow> binding list option \<times> mikrotik" where
  \<comment> \<open>\<open>get_resource('/ip/hotspot/ip-binding').get()\<close>; \<open>None\<close>: it raised.\<close>
  "get_ip_bindings m =
     (case api_raises m of (raised, m') \<Rightarrow>
        if raised then (None, m') else (Some (ip_bindings m'), m'))"

definition set_ip_binding :: "nat \<Rightarrow> (binding \<Rightarrow> binding) \<Rightarrow> mikrotik \<Rightarrow> bool \<times> mikrotik" where
  \<comment> \<open>\<open>.set(id=..., fields)\<close>; the result says whether it raised.  The router refuses
      an id it does not hold.\<close>
  "set_ip_binding i f m =
     (case api_raises m of (raised, m') \<Rightarrow>
        if raised \<or> i \<notin> set (map bid (ip_bindings m')) then (True, m')
        else (False, m'\<lparr>ip_bindings := map (\<lambda>b. if bid b = i then f b else b) (ip_bindings m')\<rparr>))"

definition add_ip_binding :: "string \<Rightarrow> string \<Rightarrow> string \<Rightarrow> mikrotik \<Rightarrow> bool \<times> mikrotik" where
  \<comment> \<open>\<open>.add(mac-address, type, comment)\<close>; the router assigns a fresh id.\<close>
  "add_ip_binding mac ty cmt m =
     (case api_raises m of (raised, m') \<Rightarrow>
        if raised then (True, m')
        else (False, m'\<lparr>ip_bindings := ip_bindings m' @
                [\<lparr>bid = fresh_id (map bid (ip_bindings m')), mac_address = mac,
                  btype = ty, comment = cmt\<rparr>]\<rparr>))"

definition remove_ip_binding :: "nat \<Rightarrow> mikrotik \<Rightarrow> bool \<times> mikrotik" where
  \<comment> \<open>\<open>.remove(id=...)\<close>\<close>
  "remove_ip_binding i m =
     (case api_raises m of (raised, m') \<Rightarrow>
        if raised \<or> i \<notin> set (map bid (ip_bindings m')) then (True, m')
        else (False, m'\<lparr>ip_bindings := filter (\<lambda>b. bid b \<noteq> i) (ip_bindings m')\<rparr>))"

definition get_scheduler :: "mikrotik \<Rightarrow> schedule list option \<times> mikrotik" where
  "get_scheduler m =
     (case api_raises m of (raised, m') \<Rightarrow>
        if raised then (None, m') else (Some (scheduler m'), m'))"

definition add_scheduler :: "schedule \<Rightarrow> mikrotik \<Rightarrow> bool \<times> mikrotik" where
  \<comment> \<open>\<open>scheduler.add(...)\<close>; the router assigns the id.\<close>
  "add_scheduler job m =
     (case api_raises m of (raised, m') \<Rightarrow>
        if raised then (True, m')
        else (False, m'\<lparr>scheduler := scheduler m' @
                [job\<lparr>sid := fresh_id (map sid (scheduler m'))\<rparr>]\<rparr>))"

definition remove_scheduler :: "nat \<Rightarrow> mikrotik \<Rightarrow> bool \<times> mikrotik" where
  "remove_scheduler i m =
     (case api_raises m of (raised, m') \<Rightarrow>
        if raised \<or> i \<notin> set (map sid (scheduler m')) then (True, m')
        else (False, m'\<lparr>scheduler := filter (\<lambda>j. sid j \<noteq> i) (scheduler m')\<rparr>))"

section \<open>mikrotik\_manager: the operations\<close>

definition load_clients :: "mikrotik \<Rightarrow> clients \<times> mikrotik" where
  \<comment> \<open>\<open>_load_clients\<close>: an exception gives the empty dict.\<close>
  "load_clients m =
     (case get_ip_bindings m of
        (None, m') \<Rightarrow> ([], m')
      | (Some bindings, m') \<Rightarrow> (load_clients_loop bindings [], m'))"

definition refresh_clients_cache :: "mikrotik \<Rightarrow> mikrotik" where
  "refresh_clients_cache m = (case load_clients m of (c, m') \<Rightarrow> m'\<lparr>clients_cache := c\<rparr>)"

definition block_client :: "mikrotik \<Rightarrow> string \<Rightarrow> bool \<times> mikrotik" where
  "block_client m client_name =
     (case find_client_in_ip_bindings (clients_cache m) client_name of
        Some b \<Rightarrow>
          (case set_ip_binding (bid b) (\<lambda>x. x\<lparr>btype := ''blocked''\<rparr>) m of
             (raised, m') \<Rightarrow> (\<not> raised, m'))
      | None \<Rightarrow> (False, m))"

definition activate_client :: "mikrotik \<Rightarrow> string \<Rightarrow> bool \<times> mikrotik" where
  "activate_client m client_name =
     (case find_client_in_ip_bindings (clients_cache m) client_name of
        Some b \<Rightarrow>
          (case set_ip_binding (bid b) (\<lambda>x. x\<lparr>btype := ''bypassed''\<rparr>) m of
             (raised, m') \<Rightarrow> (\<not> raised, m'))
      | None \<Rightarrow> (False, m))"

definition get_dhcp_leases :: "mikrotik \<Rightarrow> lease list \<times> mikrotik" where
  "get_dhcp_leases m =
     (case api_raises m of (raised, m') \<Rightarrow> if raised then ([], m') else (dhcp_leases m', m'))"

definition find_mac_by_ip :: "mikrotik \<Rightarrow> string \<Rightarrow> string option \<times> mikrotik" where
  "find_mac_by_ip m ip_address =
     (case get_dhcp_leases m of (leases, m1) \<Rightarrow>
        (case find (\<lambda>l. address l = ip_address \<and> lease_mac l \<noteq> []) leases of
           Some l \<Rightarrow> (Some (lease_mac l), m1)
         | None \<Rightarrow>
             (case api_raises m1 of (raised, m2) \<Rightarrow>
                if raised then (None, m2)
                else (case find (\<lambda>a. address a = ip_address \<and> lease_mac a \<noteq> []) (arp_entries m2) of
                        Some a \<Rightarrow> (Some (lease_mac a), m2)
                      | None \<Rightarrow> (None, m2)))))"

definition digit_group :: "string \<Rightarrow> bool" where
  \<comment> \<open>\<open>\d{1,3}\<close>; below code point 256 the decimal digits are 0 to 9\<close>
  "digit_group g = (1 \<le> length g \<and> length g \<le> 3 \<and> list_all is_digit g)"

definition ip_pattern_matches :: "string \<Rightarrow> bool" where
  \<comment> \<open>\<open>re.match(r'^(\d{1,3}\.){3}\d{1,3}$', s)\<close>; \<open>$\<close> also matches before a final newline.\<close>
  "ip_pattern_matches s =
     (let t = (if s \<noteq> [] \<and> last s = CHR 0x0A then butlast s else s) in
      case py_split ''.'' t of
        [a, b, c, d] \<Rightarrow> digit_group a \<and> digit_group b \<and> digit_group c \<and> digit_group d
      | _ \<Rightarrow> False)"

definition is_ip_address :: "string \<Rightarrow> bool" where
  "is_ip_address identifier =
     (if ip_pattern_matches identifier
      then list_all (\<lambda>part. case py_int part of Some n \<Rightarrow> 0 \<le> n \<and> n \<le> 255 | None \<Rightarrow> False)
             (py_split ''.'' identifier)
      else False)"

definition find_mac_in_ip_bindings :: "mikrotik \<Rightarrow> string \<Rightarrow> binding option \<times> mikrotik" where
  "find_mac_in_ip_bindings m mac =
     (case get_ip_bindings m of
        (None, m') \<Rightarrow> (None, m')
      | (Some bindings, m') \<Rightarrow>
          (find (\<lambda>b. py_lower (mac_address b) = py_lower mac) bindings, m'))"

definition delete_ip_binding_by_id :: "mikrotik \<Rightarrow> nat \<Rightarrow> bool \<times> mikrotik" where
  "delete_ip_binding_by_id m binding_id =
     (case remove_ip_binding binding_id m of (raised, m') \<Rightarrow> (\<not> raised, m'))"

definition add_new_client :: "mikrotik \<Rightarrow> string \<Rightarrow> string \<Rightarrow> (bool \<times> string option) \<times> mikrotik" where
  "add_new_client m client_name mac_or_ip =
     (if find_client_in_ip_bindings (clients_cache m) client_name \<noteq> None
      then ((False, Some ''Already-Exists''), m)
      else
        case (if is_ip_address mac_or_ip then find_mac_by_ip m mac_or_ip
              else (Some mac_or_ip, m)) of
          (None, m1) \<Rightarrow> ((False, Some ''IP-Not-Found''), m1)
        | (Some mac, m1) \<Rightarrow>
            (case find_mac_in_ip_bindings m1 mac of (existing_mac_binding, m2) \<Rightarrow>
               (case (case existing_mac_binding of
                        None \<Rightarrow> Inr m2
                      | Some e \<Rightarrow>
                          if is_unauthorized_user (comment e)
                          then (case delete_ip_binding_by_id m2 (bid e) of
                                  (deleted, m3) \<Rightarrow>
                                    if deleted then Inr (refresh_clients_cache m3)
                                    else Inl ((False, Some ''Delete-Failed''), m3))
                          else Inl ((False, Some ''Already-Exists''), m2)) of
                  Inl early \<Rightarrow> early
                | Inr m4 \<Rightarrow>
                    (case add_ip_binding mac ''bypassed'' client_name m4 of (raised, m5) \<Rightarrow>
                       if raised then ((False, Some ''Wrong-MAC''), m5)
                       else ((True, None), refresh_clients_cache m5)))))"

definition update_client_mac :: "mikrotik \<Rightarrow> string \<Rightarrow> string \<Rightarrow> (bool \<times> string option) \<times> mikrotik" where
  "update_client_mac m client_name mac_or_ip =
     (case find_client_in_ip_bindings (clients_cache m) client_name of
        None \<Rightarrow> ((False, Some ''Client-Not-Found''), m)
      | Some existing_binding \<Rightarrow>
         (case (if is_ip_address mac_or_ip then find_mac_by_ip m mac_or_ip
                else (Some mac_or_ip, m)) of
            (None, m1) \<Rightarrow> ((False, Some ''IP-Not-Found''), m1)
          | (Some mac, m1) \<Rightarrow>
              (case find_mac_in_ip_bindings m1 mac of (existing_mac_binding, m2) \<Rightarrow>
                 (case (case existing_mac_binding of
                          None \<Rightarrow> Inr m2
                        | Some e \<Rightarrow>
                            if bid e \<noteq> bid existing_binding
                            then if is_unauthorized_user (comment e)
                                 then (case delete_ip_binding_by_id m2 (bid e) of
                                         (deleted, m3) \<Rightarrow>
                                           if deleted then Inr (refresh_clients_cache m3)
                                           else Inl ((False, Some ''Delete-Failed''), m3))
                                 else Inl ((False, Some ''Already-Exists''), m2)
                            else Inr m2) of
                    Inl early \<Rightarrow> early
                  | Inr m4 \<Rightarrow>
                      (let is_blocked = (btype existing_binding = ''blocked'') in
                       case (if is_blocked
                             then set_ip_binding (bid existing_binding)
                                    (\<lambda>b. b\<lparr>mac_address := mac, btype := ''bypassed''\<rparr>) m4
                             else set_ip_binding (bid existing_binding)
                                    (\<lambda>b. b\<lparr>mac_address := mac\<rparr>) m4) of
                         (raised, m5) \<Rightarrow>
                           if raised then ((False, Some ''Wrong-MAC''), m5)
                           else ((True, None), refresh_clients_cache m5))))))"

definition update_client_name :: "mikrotik \<Rightarrow> string \<Rightarrow> string \<Rightarrow> (bool \<times> string option) \<times> mikrotik" where
  "update_client_name m client_name new_name =
     (case find_client_in_ip_bindings (clients_cache m) client_name of
        None \<Rightarrow> ((False, Some ''Client-Not-Found''), m)
      | Some existing_binding \<Rightarrow>
          (let current_comment = comment existing_binding in
           if current_comment = [] then ((False, Some ''No-Comment''), m)
           else
             case set_ip_binding (bid existing_binding)
                    (\<lambda>b. b\<lparr>comment := name_comment current_comment new_name\<rparr>) m of
               (raised, m1) \<Rightarrow>
                 if raised then ((False, Some ''Update-Failed''), m1)
                 else ((True, None), refresh_clients_cache m1)))"

definition update_client_phone :: "mikrotik \<Rightarrow> string \<Rightarrow> string \<Rightarrow> (bool \<times> string option) \<times> mikrotik" where
  "update_client_phone m client_name new_phone =
     (case find_client_in_ip_bindings (clients_cache m) client_name of
        None \<Rightarrow> ((False, Some ''Client-Not-Found''), m)
      | Some existing_binding \<Rightarrow>
          (let current_comment = comment existing_binding in
           if current_comment = [] then ((False, Some ''No-Comment''), m)
           else
             case set_ip_binding (bid existing_binding)
                    (\<lambda>b. b\<lparr>comment := phone_comment current_comment new_phone\<rparr>) m of
               (raised, m1) \<Rightarrow>
                 if raised then ((False, Some ''Update-Failed''), m1)
                 else ((True, None), refresh_clients_cache m1)))"

section \<open>mikrotik\_manager: scheduled blocks\<close>

definition find_existing_schedule :: "mikrotik \<Rightarrow> string \<Rightarrow> schedule option \<times> mikrotik" where
  "find_existing_schedule m client_name =
     (case get_scheduler m of
        (None, m') \<Rightarrow> (None, m')
      | (Some schedules, m') \<Rightarrow> (find (\<lambda>j. sname j = client_name) schedules, m'))"

definition delete_existing_schedule :: "mikrotik \<Rightarrow> string \<Rightarrow> bool \<times> mikrotik" where
  "delete_existing_schedule m client_name =
     (case find_existing_schedule m client_name of
        (None, m1) \<Rightarrow> (False, m1)
      | (Some existing_schedule, m1) \<Rightarrow>
          (case remove_scheduler (sid existing_schedule) m1 of (raised, m2) \<Rightarrow> (\<not> raised, m2)))"

definition py_index :: "'a list \<Rightarrow> int \<Rightarrow> 'a option" where
  \<comment> \<open>\<open>xs[i]\<close> with an \<open>int\<close>: from the end when negative; \<open>None\<close> is IndexError.\<close>
  "py_index xs i =
     (if 0 \<le> i \<and> i < int (length xs) then Some (xs ! nat i)
      else if i < 0 \<and> - int (length xs) \<le> i then Some (xs ! nat (int (length xs) + i))
      else None)"

definition month_names :: "string list" where
  "month_names = [''Jan'', ''Feb'', ''Mar'', ''Apr'', ''May'', ''Jun'',
                  ''Jul'', ''Aug'', ''Sep'', ''Oct'', ''Nov'', ''Dec'']"

definition script_content :: "string \<Rightarrow> string" where
  \<comment> \<open>The RouterOS script of the job; \<open>CHR 0x0A\<close> is the line break, \<open>CHR 0x22\<close> the
      double quote, \<open>CHR 0x27\<close> the apostrophe.\<close>
  "script_content mac =
     ''# Assign the user'' @ [CHR 0x27] @ ''s MAC address to a variable'' @ [CHR 0x0A] @
     '':local targetMac '' @ [CHR 0x22] @ mac @ [CHR 0x22] @ [CHR 0x0A] @
     [CHR 0x0A] @
     ''# Find the entry in IP Binding list based on the MAC address'' @ [CHR 0x0A] @
     '':foreach i in=[/ip hotspot ip-binding find where mac-address=$targetMac and type='' @
       [CHR 0x22] @ ''bypassed'' @ [CHR 0x22] @ ''] do={'' @ [CHR 0x0A] @
     ''    # Change the type to '' @ [CHR 0x22] @ ''blocked'' @ [CHR 0x22] @ [CHR 0x0A] @
     ''    /ip hotspot ip-binding set $i type=blocked'' @ [CHR 0x0A] @
     ''}'' @ [CHR 0x0A] @
     [CHR 0x0A] @
     ''# Log the operation in the system log'' @ [CHR 0x0A] @
     '':log info '' @ [CHR 0x22] @ ''MAC Address $targetMac has been changed to blocked'' @
       [CHR 0x22] @ '' ''"

definition schedule_block_client ::
  "date \<Rightarrow> mikrotik \<Rightarrow> string \<Rightarrow> string \<Rightarrow> string \<Rightarrow> bool \<times> mikrotik" where
  \<comment> \<open>The first argument is today's date, read by \<open>is_date_in_future\<close>.\<close>
  "schedule_block_client today m client_name mac block_date =
     (if \<not> is_date_in_future today block_date then (False, m)
      else
        case find_existing_schedule m client_name of (existing, m1) \<Rightarrow>
          (let m2 = (if existing \<noteq> None then snd (delete_existing_schedule m1 client_name) else m1)
           in case py_split ''-'' block_date of
                [day0, month0, year] \<Rightarrow>
                  (let day = zfill 2 day0; month = zfill 2 month0 in
                   case py_int month of
                     None \<Rightarrow> (False, m2)
                   | Some mi \<Rightarrow>
                       (case py_index month_names (mi - 1) of
                          None \<Rightarrow> (False, m2)
                        | Some mon \<Rightarrow>
                            (let formatted_date =
                                   mon @ ''/'' @ day @ ''/20'' @ drop (length year - 2) year
                             in case add_scheduler
                                       \<lparr>sid = 0, sname = client_name, start_date = formatted_date,
                                        start_time = ''23:59:00'', sinterval = ''00:00:00'',
                                        on_event = script_content mac,
                                        policy = ''ftp,reboot,read,write,policy,test,password,sniff,sensitive,romon''\<rparr>
                                       m2 of
                                  (raised, m3) \<Rightarrow> (\<not> raised, m3))))
              | _ \<Rightarrow> (False, m2)))"

section \<open>sheet\_sync: column letters\<close>

function get_column_letter_loop :: "int \<Rightarrow> string \<Rightarrow> string" where
  \<comment> \<open>The \<open>while index >= 0\<close> loop; \<open>//\<close> is floor division, as \<open>div\<close> on \<open>int\<close>.\<close>
  "get_column_letter_loop index result =
     (if index \<ge> 0
      then get_column_letter_loop (index div 26 - 1) (char_of (65 + index mod 26) # result)
      else result)"
  by pat_completeness auto
termination
  by (relation "measure (\<lambda>(i, r). nat (i + 1))") auto

definition get_column_letter :: "int \<Rightarrow> string" where
  "get_column_letter index = get_column_letter_loop index []"

definition letter_value :: "string \<Rightarrow> int" where
  \<comment> \<open>The number a letter name denotes in bijective base 26 (\<open>A\<close> = 1, ..., \<open>Z\<close> = 26).\<close>
  "letter_value s = foldl (\<lambda>a c. 26 * a + (of_char c - 64)) 0 s"

section \<open>sheet\_sync: processing one row\<close>

text \<open>
  The spreadsheet service is the second external collaborator: \<open>updates\<close> records the cells
  written, in order, as pairs of range name and value; \<open>sheet_failures\<close> plays the part of
  \<open>failures\<close> for its round trips.
\<close>

record sheet =
  updates :: "(string \<times> string) list"
  sheet_failures :: "bool list"

record building =
  bname :: string
  client_col :: nat
  status_col :: nat
  notes_col :: nat

definition sheet_update :: "string \<Rightarrow> string \<Rightarrow> sheet \<Rightarrow> bool \<times> sheet" where
  \<comment> \<open>\<open>service.spreadsheets().values().update(range=..., body=...).execute()\<close>;
      the result says whether it raised.\<close>
  "sheet_update range_name v sv =
     (case sheet_failures sv of
        [] \<Rightarrow> (False, sv\<lparr>updates := updates sv @ [(range_name, v)]\<rparr>)
      | f # fs \<Rightarrow>
          if f then (True, sv\<lparr>sheet_failures := fs\<rparr>)
          else (False, sv\<lparr>updates := updates sv @ [(range_name, v)], sheet_failures := fs\<rparr>))"

definition update_sheet_status :: "sheet \<Rightarrow> nat \<Rightarrow> string \<Rightarrow> nat \<Rightarrow> sheet" where
  "update_sheet_status sv row_index new_status status_column =
     (let col_letter = get_column_letter (int status_column + 2);
          range_name = ''Payment!'' @ col_letter @ str_nat (row_index + 2)
      in snd (sheet_update range_name new_status sv))"

definition cell :: "string list list \<Rightarrow> nat \<Rightarrow> nat \<Rightarrow> string option" where
  \<comment> \<open>\<open>values[row_index][col]\<close>; \<open>None\<close> is IndexError.\<close>
  "cell values row_index col =
     (if row_index < length values \<and> col < length (values ! row_index)
      then Some (values ! row_index ! col) else None)"

definition limit_date_ok :: "string \<Rightarrow> bool" where
  \<comment> \<open>The inner \<open>try\<close> of the \<open>LIMIT=\<close> branch: \<open>False\<close> where it raises.\<close>
  "limit_date_ok block_date =
     (case py_split ''-'' block_date of
        [day, month, year] \<Rightarrow>
          1 \<le> length day \<and> length day \<le> 2 \<and> 1 \<le> length month \<and> length month \<le> 2 \<and>
          length year = 4 \<and>
          (case py_int day of
             None \<Rightarrow> False
           | Some d \<Rightarrow>
               1 \<le> d \<and> d \<le> 31 \<and>
               (case py_int month of None \<Rightarrow> False | Some mo \<Rightarrow> 1 \<le> mo \<and> mo \<le> 12))
      | _ \<Rightarrow> False)"

definition write_new_status :: "sheet \<Rightarrow> nat \<Rightarrow> string \<Rightarrow> nat \<Rightarrow> sheet" where
  \<comment> \<open>The block repeated in the \<open>NEW=\<close>, \<open>UPD-MAC=\<close> and \<open>ACTIVATE=\<close> branches:
      \<open>new_status = status.split('=')[1]\<close>, then the \<open>NOT-PAY\<close> test.\<close>
  "write_new_status sv row_index status status_column =
     (let new_status = py_split ''='' status ! 1 in
      if py_upper new_status = ''NOT-PAY''
      then update_sheet_status sv row_index ''Not Pay'' status_column
      else update_sheet_status sv row_index new_status status_column)"

definition write_error :: "sheet \<Rightarrow> nat \<Rightarrow> string option \<Rightarrow> nat \<Rightarrow> sheet" where
  \<comment> \<open>\<open>update_sheet_status(service, row_index, error, ...)\<close> on a failure; the error is
      never \<open>None\<close> there.\<close>
  "write_error sv row_index error status_column =
     (case error of
        Some e \<Rightarrow> update_sheet_status sv row_index e status_column
      | None \<Rightarrow> sv)"

definition process_client ::
  "date \<Rightarrow> sheet \<Rightarrow> mikrotik \<Rightarrow> string \<Rightarrow> string \<Rightarrow> building \<Rightarrow> nat \<Rightarrow> string list list
   \<Rightarrow> sheet \<times> mikrotik" where
  \<comment> \<open>An exception inside the \<open>try\<close> (an IndexError on \<open>values\<close>) ends the row with what
      was done so far.\<close>
  "process_client today sv m client_name status building_info row_index values =
     (if client_name = [] \<or> status = [] then (sv, m)
      else if py_upper status = ''CUT'' then
        (case block_client m client_name of (ok, m1) \<Rightarrow>
           if ok then (update_sheet_status sv row_index ''BLOCK'' (status_col building_info), m1)
           else (sv, m1))
      else if prefix ''LIMIT='' (py_upper status) then
        (case cell values row_index (notes_col building_info) of
           None \<Rightarrow> (sv, m)
         | Some block_date \<Rightarrow>
             if block_date = [] then (sv, m)
             else if \<not> limit_date_ok block_date then (sv, m)
             else
               (let mac = get_client_mac (clients_cache m) client_name in
                if mac = [] then (sv, m)
                else
                  case schedule_block_client today m client_name mac block_date of
                    (scheduled, m1) \<Rightarrow>
                      if scheduled then
                        (case activate_client m1 client_name of (ok, m2) \<Rightarrow>
                           if ok
                           then (update_sheet_status sv row_index (py_split ''='' status ! 1)
                                   (status_col building_info), m2)
                           else (sv, m2))
                      else (update_sheet_status sv row_index ''Old-Date''
                              (status_col building_info), m1)))
      else if py_upper status = ''NOT PAY'' then
        (if is_client_active (clients_cache m) client_name
         then (update_sheet_status sv row_index ''Waiting'' (status_col building_info), m)
         else if is_client_blocked (clients_cache m) client_name then
           (case activate_client m client_name of (ok, m1) \<Rightarrow>
              if ok then (update_sheet_status sv row_index ''Waiting'' (status_col building_info), m1)
              else (sv, m1))
         else (sv, m))
      else if prefix ''NEW='' (py_upper status) then
        (case cell values row_index (notes_col building_info) of
           None \<Rightarrow> (sv, m)
         | Some mac_or_ip \<Rightarrow>
             if mac_or_ip = []
             then (update_sheet_status sv row_index ''NO-MAC'' (status_col building_info), m)
             else
               case add_new_client m client_name (py_strip mac_or_ip) of
                 ((success, error), m1) \<Rightarrow>
                   if success
                   then (write_new_status sv row_index status (status_col building_info), m1)
                   else (write_error sv row_index error (status_col building_info), m1))
      else if prefix ''UPD-MAC='' (py_upper status) then
        (case cell values row_index (notes_col building_info) of
           None \<Rightarrow> (sv, m)
         | Some mac_or_ip \<Rightarrow>
             if mac_or_ip = []
             then (update_sheet_status sv row_index ''NO-MAC'' (status_col building_info), m)
             else
               case update_client_mac m client_name (py_strip mac_or_ip) of
                 ((success, error), m1) \<Rightarrow>
                   if success
                   then (write_new_status sv row_index status (status_col building_info), m1)
                   else (write_error sv row_index error (status_col building_info), m1))
      else if prefix ''ACTIVATE='' (py_upper status) then
        (if is_client_active (clients_cache m) client_name
         then (write_new_status sv row_index status (status_col building_info), m)
         else
           case activate_client m client_name of (ok, m1) \<Rightarrow>
             if ok then (write_new_status sv row_index status (status_col building_info), m1)
             else (sv, m1))
      else if prefix ''RE=NAME'' (py_upper status) then
        (if \<not> row_index < length values then (sv, m)
         else if length (values ! row_index) \<le> notes_col building_info
         then (update_sheet_status sv row_index ''NO-NOTES-COL'' (status_col building_info), m)
         else
           (let new_name0 = values ! row_index ! notes_col building_info in
            if new_name0 = []
            then (update_sheet_status sv row_index ''NO-NAME'' (status_col building_info), m)
            else
              (let new_name = py_strip new_name0 in
               case update_client_name m client_name new_name of
                 ((success, error), m1) \<Rightarrow>
                   if success then
                     (let sv1 = update_sheet_status sv row_index ''Not Pay''
                                  (status_col building_info);
                          sv2 = snd (sheet_update
                                  (''Payment!'' @ get_column_letter (int (client_col building_info) + 2)
                                     @ str_nat (row_index + 2))
                                  new_name sv1);
                          phone = get_client_phone (clients_cache m1) new_name;
                          sv3 = snd (sheet_update
                                  (''Payment!'' @ get_column_letter (int (notes_col building_info) + 2)
                                     @ str_nat (row_index + 2))
                                  phone sv2)
                      in (sv3, m1))
                   else (write_error sv row_index error (status_col building_info), m1))))
      else if prefix ''RE=NUMBER'' (py_upper status) then
        (case cell values row_index (notes_col building_info) of
           None \<Rightarrow> (sv, m)
         | Some new_phone0 \<Rightarrow>
             if new_phone0 = []
             then (update_sheet_status sv row_index ''NO-PHONE'' (status_col building_info), m)
             else
               case update_client_phone m client_name (py_strip new_phone0) of
                 ((success, error), m1) \<Rightarrow>
                   if success
                   then (update_sheet_status sv row_index ''Not Pay'' (status_col building_info), m1)
                   else (write_error sv row_index error (status_col building_info), m1))
      else (sv, m))"

section \<open>Snapshots of the directory\<close>

definition directory_rebuilt :: "mikrotik \<Rightarrow> bool" where
  \<comment> \<open>The cache is what \<open>_load_clients\<close> returns on the bindings the router now holds:
      the directory built from them, or the empty dict when the listing raised.\<close>
  "directory_rebuilt m =
     (clients_cache m = [] \<or> clients_cache m = load_clients_loop (ip_bindings m) [])"

definition placeholder_removed :: "mikrotik \<Rightarrow> mikrotik \<Rightarrow> bool" where
  \<comment> \<open>From the first state to the second, one binding with an unauthorized comment was
      removed and the cache was rebuilt.\<close>
  "placeholder_removed m m' =
     (\<exists>p \<in> set (ip_bindings m). is_unauthorized_user (comment p) \<and>
        ip_bindings m' = filter (\<lambda>b. bid b \<noteq> bid p) (ip_bindings m) \<and> directory_rebuilt m')"

section \<open>Example routers\<close>

abbreviation example_ali_1 :: binding where
  "example_ali_1 \<equiv>
     \<lparr>bid = 1, mac_address = ''AA:BB:CC:DD:EE:01'', btype = ''bypassed'', comment = ''Ali @0100''\<rparr>"

abbreviation example_ali_2 :: binding where
  "example_ali_2 \<equiv>
     \<lparr>bid = 2, mac_address = ''AA:BB:CC:DD:EE:02'', btype = ''bypassed'', comment = ''Ali @0200''\<rparr>"

abbreviation example_no_comment :: binding where
  "example_no_comment \<equiv>
     \<lparr>bid = 7, mac_address = ''AA:BB:CC:DD:EE:07'', btype = ''bypassed'', comment = []\<rparr>"

abbreviation example_router :: "binding list \<Rightarrow> mikrotik" where
  "example_router bs \<equiv>
     \<lparr>ip_bindings = bs, dhcp_leases = [], arp_entries = [], scheduler = [], failures = [],
      clients_cache = load_clients_loop bs []\<rparr>"

abbreviation example_bare :: binding where
  "example_bare \<equiv>
     \<lparr>bid = 3, mac_address = ''AA:BB:CC:DD:EE:03'', btype = ''bypassed'', comment = ''ali@0100''\<rparr>"

abbreviation example_blocked :: binding where
  "example_blocked \<equiv>
     \<lparr>bid = 4, mac_address = ''AA:BB:CC:DD:EE:04'', btype = ''blocked'', comment = ''Sara @0400''\<rparr>"

abbreviation example_placeholder :: binding where
  "example_placeholder \<equiv>
     \<lparr>bid = 9, mac_address = ''AA:BB:CC:DD:EE:09'', btype = ''blocked'',
      comment = ''ZZZZ=Blocked unauthorized 2024''\<rparr>"

abbreviation example_spaced :: binding where
  "example_spaced \<equiv>
     \<lparr>bid = 5, mac_address = ''AA:BB:CC:DD:EE:05'', btype = ''bypassed'', comment = ''Ali @ 0100''\<rparr>"

abbreviation example_nbsp :: binding where
  \<comment> \<open>the name is followed by a NO-BREAK SPACE (U+00A0)\<close>
  "example_nbsp \<equiv>
     \<lparr>bid = 6, mac_address = ''AA:BB:CC:DD:EE:06'', btype = ''bypassed'',
      comment = ''Ali'' @ [CHR 0xA0] @ '' @0100''\<rparr>"

section \<open>Splitting and stripping\<close>

lemma split_once_Some_eq: "split_once sep s = Some (a, b) \<Longrightarrow> s = a @ sep @ b"
proof (induction s arbitrary: a)
  case Nil
  then show ?case by simp
next
  case (Cons c cs)
  show ?case
  proof (cases "prefix sep (c # cs)")
    case True
    then obtain r where r: "c # cs = sep @ r" by (auto simp: prefix_def)
    then have d: "drop (length sep) (c # cs) = r" by simp
    from True Cons.prems have "a = []" "b = drop (length sep) (c # cs)" by simp_all
    with d r show ?thesis by simp
  next
    case False
    with Cons.prems obtain a' where "split_once sep cs = Some (a', b)" "a = c # a'"
      by (auto split: if_splits)
    with Cons.IH show ?thesis by auto
  qed
qed

lemma py_in_iff_split_once: "sep \<noteq> [] \<Longrightarrow> py_in sep s = (split_once sep s \<noteq> None)"
  by (induction s) auto

lemma split_once_before: "split_once sep s = Some (a, b) \<Longrightarrow> sep \<noteq> [] \<Longrightarrow> \<not> py_in sep a"
proof (induction s arbitrary: a)
  case Nil
  then show ?case by simp
next
  case (Cons c cs)
  show ?case
  proof (cases "prefix sep (c # cs)")
    case True
    with Cons.prems show ?thesis by auto
  next
    case False
    with Cons.prems obtain a' where a': "split_once sep cs = Some (a', b)" "a = c # a'"
      by (auto split: if_splits)
    then have no: "\<not> py_in sep a'" using Cons by blast
    have cs: "cs = a' @ sep @ b" using a' split_once_Some_eq by blast
    have "\<not> prefix sep (c # a')"
    proof
      assume "prefix sep (c # a')"
      then have "prefix sep (c # a' @ sep @ b)" by (metis append_Cons prefix_prefix)
      with False cs show False by simp
    qed
    with no a' show ?thesis by simp
  qed
qed

lemma split_once_at_sep:
  "\<not> py_in '' @'' a \<Longrightarrow> split_once '' @'' (a @ '' @'' @ b) = Some (a, b)"
proof (induction a)
  case Nil
  then show ?case by simp
next
  case (Cons c cs)
  then have IH: "split_once '' @'' (cs @ '' @'' @ b) = Some (cs, b)" by simp
  have "\<not> prefix '' @'' (c # cs)" using Cons.prems by simp
  then have "\<not> prefix '' @'' (c # cs @ '' @'' @ b)"
    by (cases cs) auto
  then show ?case using IH by simp
qed

lemma length_py_strip: "length (py_strip s) \<le> length s"
  unfolding py_strip_def
  by (metis length_dropWhile_le length_rev order_trans)

lemma dropWhile_same_length: "length (dropWhile P xs) = length xs \<Longrightarrow> dropWhile P xs = xs"
proof -
  assume a: "length (dropWhile P xs) = length xs"
  have "length (takeWhile P xs) + length (dropWhile P xs) = length xs"
    by (metis length_append takeWhile_dropWhile_id)
  with a have "takeWhile P xs = []" by simp
  then show ?thesis by (metis append_Nil takeWhile_dropWhile_id)
qed

lemma py_strip_same_length: "length (py_strip s) = length s \<Longrightarrow> py_strip s = s"
proof -
  assume a: "length (py_strip s) = length s"
  have 1: "length (dropWhile is_space (rev (dropWhile is_space s))) \<le> length (dropWhile is_space s)"
    by (metis length_dropWhile_le length_rev)
  have 2: "length (dropWhile is_space s) \<le> length s" by (rule length_dropWhile_le)
  from a 1 2 have e1: "length (dropWhile is_space s) = length s" 
    and e2: "length (dropWhile is_space (rev (dropWhile is_space s))) = length (rev (dropWhile is_space s))"
    by (simp_all add: py_strip_def)
  show ?thesis
    unfolding py_strip_def
    using dropWhile_same_length [OF e1] dropWhile_same_length [OF e2] by simp
qed

lemma hd_py_split:
  "sep \<noteq> [] \<Longrightarrow> hd (py_split sep s) = (case split_once sep s of None \<Rightarrow> s | Some (a, b) \<Rightarrow> a)"
  by (subst py_split.simps) (simp split: option.splits)

lemma rejoin_iff:
  assumes "split_once '' @'' c = Some (a, b)"
  shows "extract_client_name c @ '' @'' @ comment_phone c = c
         \<longleftrightarrow> py_strip a = a \<and> py_strip b = b"
proof -
  have c: "c = a @ '' @'' @ b" using assms split_once_Some_eq by blast
  have inn: "py_in '' @'' c" using assms by (simp add: py_in_iff_split_once)
  have n: "extract_client_name c = py_strip a"
    using assms by (simp add: extract_client_name_def hd_py_split)
  have p: "comment_phone c = py_strip b"
    using assms inn by (simp add: comment_phone_def py_split1_def)
  show ?thesis
  proof
    assume "extract_client_name c @ '' @'' @ comment_phone c = c"
    then have eq: "py_strip a @ '' @'' @ py_strip b = a @ '' @'' @ b"
      using n p c by simp
    then have "length (py_strip a @ '' @'' @ py_strip b) = length (a @ '' @'' @ b)"
      by simp
    then have "length (py_strip a) + length (py_strip b) = length a + length b"
      by simp
    then have "length (py_strip a) = length a" "length (py_strip b) = length b"
      using length_py_strip [of a] length_py_strip [of b] by linarith+
    then show "py_strip a = a \<and> py_strip b = b"
      by (simp add: py_strip_same_length)
  next
    assume "py_strip a = a \<and> py_strip b = b"
    then show "extract_client_name c @ '' @'' @ comment_phone c = c"
      using n p c by simp
  qed
qed

section \<open>Name and phone of a comment\<close>

lemma lookup_single:
  "find_client_in_ip_bindings [(py_strip n, b)] n = Some b"
  by (simp add: find_client_in_ip_bindings_def)

text \<open>
  C8 (as amended).  Let the directory lookup of a client name give the record \<open>b\<close>, whose
  comment contains the separator \<open>' @'\<close>.  The name \<open>_extract_client_name\<close> derives from that
  comment and the phone \<open>get_client_phone\<close> returns for the client, joined again by \<open>' @'\<close>,
  give back the comment exactly when the comment is \<open>name @phone\<close> with no \<open>' @'\<close> inside
  \<open>name\<close> and no whitespace at either end of \<open>name\<close> or of \<open>phone\<close>: both extractions
  strip their result.  (Every comment is the comment of such a record: \<open>lookup_single\<close>.)
\<close>

theorem comment_round_trip:
  assumes "find_client_in_ip_bindings cache client_name = Some b"
      and "py_in '' @'' (comment b)"
  shows "extract_client_name (comment b) @ '' @'' @ get_client_phone cache client_name = comment b
         \<longleftrightarrow>
         (\<exists>name phone. comment b = name @ '' @'' @ phone \<and> \<not> py_in '' @'' name \<and>
                       py_strip name = name \<and> py_strip phone = phone)"
proof -
  let ?c = "comment b"
  have g: "get_client_phone cache client_name = comment_phone ?c"
    using assms(1) by (simp add: get_client_phone_def)
  from assms(2) obtain a p where ab: "split_once '' @'' ?c = Some (a, p)"
    by (auto simp: py_in_iff_split_once)
  have c: "?c = a @ '' @'' @ p" using ab by (rule split_once_Some_eq)
  have a: "\<not> py_in '' @'' a" using ab by (rule split_once_before) simp
  show ?thesis
  proof
    assume "extract_client_name ?c @ '' @'' @ get_client_phone cache client_name = ?c"
    then have "py_strip a = a \<and> py_strip p = p" using rejoin_iff [OF ab] g by simp
    with c a show "\<exists>name phone. ?c = name @ '' @'' @ phone \<and> \<not> py_in '' @'' name \<and>
                       py_strip name = name \<and> py_strip phone = phone"
      by blast
  next
    assume "\<exists>name phone. ?c = name @ '' @'' @ phone \<and> \<not> py_in '' @'' name \<and>
                       py_strip name = name \<and> py_strip phone = phone"
    then obtain name phone where np: "?c = name @ '' @'' @ phone" "\<not> py_in '' @'' name"
      "py_strip name = name" "py_strip phone = phone"
      by blast
    then have "split_once '' @'' ?c = Some (name, phone)"
      using split_once_at_sep [OF np(2), of phone] by simp
    with ab have "a = name" "p = phone" by simp_all
    with np show "extract_client_name ?c @ '' @'' @ get_client_phone cache client_name = ?c"
      using rejoin_iff [OF ab] g by simp
  qed
qed

theorem comment_round_trip_witness:
  "find_client_in_ip_bindings [(''Ali'', example_ali_1)] ''Ali'' = Some example_ali_1 \<and>
   py_in '' @'' (comment example_ali_1) \<and>
   extract_client_name (comment example_ali_1) @ '' @'' @
     get_client_phone [(''Ali'', example_ali_1)] ''Ali'' = ''Ali @0100''"
proof -
  have f: "find_client_in_ip_bindings [(''Ali'', example_ali_1)] ''Ali'' = Some example_ali_1"
    by code_simp
  have i: "py_in '' @'' (comment example_ali_1)" by simp
  have "\<exists>name phone. comment example_ali_1 = name @ '' @'' @ phone \<and> \<not> py_in '' @'' name \<and>
                       py_strip name = name \<and> py_strip phone = phone"
    by (rule exI [of _ "''Ali''"], rule exI [of _ "''0100''"])
       (simp add: py_strip_def is_space_def)
  then have "extract_client_name (comment example_ali_1) @ '' @'' @
     get_client_phone [(''Ali'', example_ali_1)] ''Ali'' = comment example_ali_1"
    using comment_round_trip [OF f i] by blast
  then show ?thesis using f i by simp
qed

theorem comment_round_trip_counterexample:
  "find_client_in_ip_bindings [(''Ali'', example_spaced)] ''Ali'' = Some example_spaced \<and>
   comment example_spaced = ''Ali'' @ '' @'' @ '' 0100'' \<and>
   extract_client_name (comment example_spaced) = ''Ali'' \<and>
   get_client_phone [(''Ali'', example_spaced)] ''Ali'' = ''0100'' \<and>
   extract_client_name (comment example_spaced) @ '' @'' @
     get_client_phone [(''Ali'', example_spaced)] ''Ali'' \<noteq> comment example_spaced"
  by code_simp

text \<open>
  The whitespace stripped is Python's: a name followed by a NO-BREAK SPACE loses it, so that
  comment does not come back either.
\<close>

lemma no_break_space_is_stripped:
  "extract_client_name (comment example_nbsp) = ''Ali'' \<and>
   get_client_phone [(''Ali'', example_nbsp)] ''Ali'' = ''0100'' \<and>
   extract_client_name (comment example_nbsp) @ '' @'' @
     get_client_phone [(''Ali'', example_nbsp)] ''Ali'' \<noteq> comment example_nbsp \<and>
   py_strip (CHR 0x85 # ''a'' @ [CHR 0x1F, CHR 0xA0]) = ''a''"
  by code_simp

section \<open>The client directory\<close>

lemma load_clients_loop_map_of:
  "map_of (load_clients_loop bs acc) k =
     (case filter (\<lambda>b. comment b \<noteq> [] \<and> extract_client_name (comment b) = k) bs of
        [] \<Rightarrow> map_of acc k
      | xs \<Rightarrow> Some (last xs))"
proof (induction bs arbitrary: acc)
  case Nil
  then show ?case by simp
next
  case (Cons b bs)
  show ?case
    by (cases "filter (\<lambda>b. comment b \<noteq> [] \<and> extract_client_name (comment b) = k) bs")
       (simp_all add: Cons.IH AList.update_conv')
qed

lemma set_update_cases:
  "(k, v) \<in> set (AList.update k' v' al) \<Longrightarrow> (k, v) = (k', v') \<or> (k, v) \<in> set al"
  by (induction al) (auto split: if_splits)

lemma load_clients_loop_entries:
  "(k, b) \<in> set (load_clients_loop bs acc) \<Longrightarrow>
   (k, b) \<in> set acc \<or> (b \<in> set bs \<and> comment b \<noteq> [] \<and> k = extract_client_name (comment b))"
proof (induction bs arbitrary: acc)
  case Nil
  then show ?case by simp
next
  case (Cons x xs)
  show ?case
  proof (cases "comment x \<noteq> []")
    case True
    with Cons.prems have "(k, b) \<in> set (load_clients_loop xs
        (AList.update (extract_client_name (comment x)) x acc))" by simp
    from Cons.IH [OF this] show ?thesis
      using True by (auto dest: set_update_cases)
  next
    case False
    with Cons.prems have "(k, b) \<in> set (load_clients_loop xs acc)" by simp
    from Cons.IH [OF this] show ?thesis by auto
  qed
qed

lemma load_clients_loop_distinct:
  "distinct (map fst acc) \<Longrightarrow> distinct (map fst (load_clients_loop bs acc))"
  by (induction bs arbitrary: acc) (simp_all add: AList.distinct_update)

lemma find_SomeD: "find P xs = Some x \<Longrightarrow> x \<in> set xs \<and> P x"
  by (induction xs) (auto split: if_splits)

lemma find_client_flexible_mem:
  assumes "find_client_flexible cache n = Some b"
  shows "\<exists>k. (k, b) \<in> set cache"
proof (cases "map_of cache (py_strip n)")
  case (Some e)
  with assms have "e = b" by (simp add: find_client_flexible_def)
  with Some show ?thesis by (blast dest: map_of_SomeD)
next
  case None
  show ?thesis
  proof (cases "find (\<lambda>(cached_name, b). py_lower cached_name = py_lower (py_strip n)) cache")
    case (Some kb)
    with None assms have "snd kb = b"
      by (simp add: find_client_flexible_def split: prod.splits)
    moreover have "kb \<in> set cache" using Some by (blast dest: find_SomeD)
    ultimately show ?thesis by (cases kb) auto
  next
    case N2: None
    show ?thesis
    proof (cases "find (\<lambda>(cached_name, b). py_in (py_lower (py_strip n)) (py_lower cached_name)) cache")
      case (Some kb)
      with None N2 assms have "snd kb = b"
        by (simp add: find_client_flexible_def split: prod.splits)
      moreover have "kb \<in> set cache" using Some by (blast dest: find_SomeD)
      ultimately show ?thesis by (cases kb) auto
    next
      case N3: None
      with None N2 assms show ?thesis by (simp add: find_client_flexible_def)
    qed
  qed
qed

lemma find_client_mem:
  assumes "find_client_in_ip_bindings cache n = Some b"
  shows "\<exists>k. (k, b) \<in> set cache"
proof (cases "map_of cache (py_strip n)")
  case (Some e)
  with assms have "e = b" by (simp add: find_client_in_ip_bindings_def)
  with Some show ?thesis by (blast dest: map_of_SomeD)
next
  case None
  with assms have "find_client_flexible cache n = Some b"
    by (simp add: find_client_in_ip_bindings_def)
  then show ?thesis by (rule find_client_flexible_mem)
qed

lemma api_raises_frame:
  "api_raises m = (r, m') \<Longrightarrow>
   ip_bindings m' = ip_bindings m \<and> clients_cache m' = clients_cache m \<and>
   dhcp_leases m' = dhcp_leases m \<and> arp_entries m' = arp_entries m \<and> scheduler m' = scheduler m"
  by (auto simp: api_raises_def split: list.splits)

lemma api_raises_Nil: "failures m = [] \<Longrightarrow> api_raises m = (False, m)"
  by (simp add: api_raises_def)

lemma load_clients_cases:
  "fst (load_clients m) = [] \<or> fst (load_clients m) = load_clients_loop (ip_bindings m) []"
  by (auto simp: load_clients_def get_ip_bindings_def split: prod.splits if_splits dest: api_raises_frame)

lemma load_clients_ok:
  "\<not> fst (api_raises m) \<Longrightarrow> fst (load_clients m) = load_clients_loop (ip_bindings m) []"
  by (auto simp: load_clients_def get_ip_bindings_def split: prod.splits if_splits dest: api_raises_frame)

lemma load_clients_frame:
  "ip_bindings (snd (load_clients m)) = ip_bindings m \<and>
   clients_cache (snd (load_clients m)) = clients_cache m"
  by (auto simp: load_clients_def get_ip_bindings_def split: prod.splits if_splits dest: api_raises_frame)

lemma refresh_bindings [simp]: "ip_bindings (refresh_clients_cache m) = ip_bindings m"
  using load_clients_frame [of m]
  by (cases "load_clients m") (simp add: refresh_clients_cache_def)

lemma load_clients_fst_snd:
  "fst (load_clients m) = [] \<or>
   fst (load_clients m) = load_clients_loop (ip_bindings (snd (load_clients m))) []"
  using load_clients_cases [of m] load_clients_frame [of m] by auto

lemma refresh_rebuilt: "directory_rebuilt (refresh_clients_cache m)"
  using load_clients_fst_snd [of m]
  by (cases "load_clients m") (auto simp: directory_rebuilt_def refresh_clients_cache_def)

lemma set_ip_binding_effect:
  "set_ip_binding i f m = (raised, m') \<Longrightarrow>
   clients_cache m' = clients_cache m \<and>
   (if raised then ip_bindings m' = ip_bindings m
    else i \<in> set (map bid (ip_bindings m)) \<and>
         ip_bindings m' = map (\<lambda>b. if bid b = i then f b else b) (ip_bindings m))"
  by (auto simp: set_ip_binding_def split: prod.splits if_splits dest: api_raises_frame)


lemma set_ip_binding_keeps:
  assumes "set_ip_binding i f m = (r, m')" "e \<in> set (ip_bindings m)" "bid e \<noteq> i"
  shows "e \<in> set (ip_bindings m')"
proof (cases r)
  case True
  with set_ip_binding_effect [OF assms(1)] assms(2) show ?thesis by simp
next
  case False
  with set_ip_binding_effect [OF assms(1)]
  have m': "ip_bindings m' = map (\<lambda>b. if bid b = i then f b else b) (ip_bindings m)" by simp
  from assms(2)
  have "(\<lambda>b. if bid b = i then f b else b) e
          \<in> (\<lambda>b. if bid b = i then f b else b) ` set (ip_bindings m)"
    by (rule imageI)
  then show ?thesis using assms(3) by (simp add: m')
qed

lemma built_cache_entry:
  assumes "clients_cache m = fst (load_clients m0)" "ip_bindings m = ip_bindings m0"
    and "find_client_in_ip_bindings (clients_cache m) n = Some b"
  shows "b \<in> set (ip_bindings m) \<and> comment b \<noteq> []"
proof -
  from assms(3) obtain k where k: "(k, b) \<in> set (clients_cache m)"
    by (blast dest: find_client_mem)
  then have "clients_cache m \<noteq> []" by auto
  with assms(1) load_clients_cases [of m0]
  have "clients_cache m = load_clients_loop (ip_bindings m0) []" by simp
  with k have "(k, b) \<in> set (load_clients_loop (ip_bindings m0) [])" by simp
  from load_clients_loop_entries [OF this] assms(2) show ?thesis by simp
qed

lemma distinct_bid_neq:
  assumes "distinct (map bid bs)" "b \<in> set bs" "e \<in> set bs" "b \<noteq> e"
  shows "bid b \<noteq> bid e"
proof -
  from assms(1) have "inj_on bid (set bs)" by (simp add: distinct_map)
  with assms(2,3,4) show ?thesis by (auto dest: inj_onD)
qed

text \<open>
  C2 (as amended).  The directory built by scanning a binding list has one entry per derived
  client name, and the entry of a name is the last binding in scan order whose non-empty
  comment yields that name: on a key collision the later binding overwrites the earlier one.
  That scan of the router's bindings is what \<open>_load_clients\<close> returns when the router answers
  the listing.
\<close>

theorem load_clients_last_wins:
  "distinct (map fst (load_clients_loop bindings [])) \<and>
   map_of (load_clients_loop bindings []) name =
     (case filter (\<lambda>b. comment b \<noteq> [] \<and> extract_client_name (comment b) = name) bindings of
        [] \<Rightarrow> None
      | bs \<Rightarrow> Some (last bs)) \<and>
   (\<not> fst (api_raises m) \<longrightarrow> fst (load_clients m) = load_clients_loop (ip_bindings m) [])"
  by (simp add: load_clients_ok load_clients_loop_map_of load_clients_loop_distinct
      split: list.splits)

theorem load_clients_last_wins_witness:
  "\<not> fst (api_raises (example_router [example_ali_1, example_ali_2, example_no_comment])) \<and>
   map_of (fst (load_clients (example_router [example_ali_1, example_ali_2, example_no_comment])))
     ''Ali'' = Some example_ali_2"
proof -
  let ?bs = "[example_ali_1, example_ali_2, example_no_comment]"
  let ?m = "example_router ?bs"
  have h: "\<not> fst (api_raises ?m)"
    by (simp add: api_raises_def)
  note t = load_clients_last_wins [of ?bs "''Ali''" ?m]
  from t h have l: "fst (load_clients ?m) = load_clients_loop (ip_bindings ?m) []"
    by blast
  from t have r: "map_of (load_clients_loop ?bs []) ''Ali'' =
           (case filter (\<lambda>b. comment b \<noteq> [] \<and> extract_client_name (comment b) = ''Ali'') ?bs of
              [] \<Rightarrow> None
            | bs \<Rightarrow> Some (last bs))"
    by blast
  have e: "(case filter (\<lambda>b. comment b \<noteq> [] \<and> extract_client_name (comment b) = ''Ali'') ?bs of
              [] \<Rightarrow> None
            | bs \<Rightarrow> Some (last bs)) = Some example_ali_2"
    by code_simp
  have "map_of (fst (load_clients ?m)) ''Ali'' = Some example_ali_2"
    using l trans [OF r e] by simp
  with h show ?thesis by (rule conjI)
qed

theorem load_clients_first_wins_counterexample:
  "comment example_ali_1 \<noteq> [] \<and> comment example_ali_2 \<noteq> [] \<and>
   extract_client_name (comment example_ali_1) = ''Ali'' \<and>
   extract_client_name (comment example_ali_2) = ''Ali'' \<and>
   map_of (load_clients_loop [example_ali_1, example_ali_2] []) ''Ali'' = Some example_ali_2 \<and>
   map_of (fst (load_clients (example_router [example_ali_1, example_ali_2]))) ''Ali''
     = Some example_ali_2 \<and>
   map_of (fst (load_clients (example_router [example_ali_1, example_ali_2]))) ''Ali''
     \<noteq> Some example_ali_1"
  by code_simp

text \<open>
  C9.  Every entry of the directory \<open>_load_clients\<close> builds comes from a binding of the
  router whose comment is non-empty, under the name derived from that comment; so whatever
  \<open>find_client_in_ip_bindings\<close> returns from that directory has a non-empty comment, and a
  binding with an empty comment (on a router with distinct ids) is left as it is by
  \<open>block_client\<close>, \<open>activate_client\<close>, \<open>update_client_name\<close> and \<open>update_client_phone\<close>,
  whatever client name they are given.
\<close>

theorem directory_entries_have_comments:
  "(\<forall>(k, b) \<in> set (fst (load_clients m)).
      b \<in> set (ip_bindings m) \<and> comment b \<noteq> [] \<and> k = extract_client_name (comment b)) \<and>
   (\<forall>n b. find_client_in_ip_bindings (fst (load_clients m)) n = Some b \<longrightarrow>
      b \<in> set (ip_bindings m) \<and> comment b \<noteq> []) \<and>
   (\<forall>m1 e n x. clients_cache m1 = fst (load_clients m) \<and> ip_bindings m1 = ip_bindings m \<and>
      distinct (map bid (ip_bindings m)) \<and> e \<in> set (ip_bindings m) \<and> comment e = [] \<longrightarrow>
      e \<in> set (ip_bindings (snd (block_client m1 n))) \<and>
      e \<in> set (ip_bindings (snd (activate_client m1 n))) \<and>
      e \<in> set (ip_bindings (snd (update_client_name m1 n x))) \<and>
      e \<in> set (ip_bindings (snd (update_client_phone m1 n x))))"
proof -
  have p1: "\<forall>(k, b) \<in> set (fst (load_clients m)).
      b \<in> set (ip_bindings m) \<and> comment b \<noteq> [] \<and> k = extract_client_name (comment b)"
  proof (clarify)
    fix k b assume kb: "(k, b) \<in> set (fst (load_clients m))"
    then have "fst (load_clients m) \<noteq> []" by auto
    with load_clients_cases [of m] kb
    have "(k, b) \<in> set (load_clients_loop (ip_bindings m) [])" by simp
    from load_clients_loop_entries [OF this]
    show "b \<in> set (ip_bindings m) \<and> comment b \<noteq> [] \<and> k = extract_client_name (comment b)"
      by simp
  qed
  have p2: "\<forall>n b. find_client_in_ip_bindings (fst (load_clients m)) n = Some b \<longrightarrow>
      b \<in> set (ip_bindings m) \<and> comment b \<noteq> []"
  proof (intro allI impI)
    fix n b assume "find_client_in_ip_bindings (fst (load_clients m)) n = Some b"
    then show "b \<in> set (ip_bindings m) \<and> comment b \<noteq> []"
      using built_cache_entry [of "m\<lparr>clients_cache := fst (load_clients m)\<rparr>" m n b] by simp
  qed
  have p3: "\<forall>m1 e n x. clients_cache m1 = fst (load_clients m) \<and> ip_bindings m1 = ip_bindings m \<and>
      distinct (map bid (ip_bindings m)) \<and> e \<in> set (ip_bindings m) \<and> comment e = [] \<longrightarrow>
      e \<in> set (ip_bindings (snd (block_client m1 n))) \<and>
      e \<in> set (ip_bindings (snd (activate_client m1 n))) \<and>
      e \<in> set (ip_bindings (snd (update_client_name m1 n x))) \<and>
      e \<in> set (ip_bindings (snd (update_client_phone m1 n x)))"
  proof (intro allI impI)
    fix m1 :: mikrotik and e :: binding and n :: string and x :: string
    assume a: "clients_cache m1 = fst (load_clients m) \<and> ip_bindings m1 = ip_bindings m \<and>
      distinct (map bid (ip_bindings m)) \<and> e \<in> set (ip_bindings m) \<and> comment e = []"
    from a have e: "e \<in> set (ip_bindings m1)" and d: "distinct (map bid (ip_bindings m1))" by simp_all
  have other: "bid b \<noteq> bid e"
    if "find_client_in_ip_bindings (clients_cache m1) n = Some b" for b
  proof -
    from built_cache_entry [of m1 m n b] a that
    have "b \<in> set (ip_bindings m1)" "comment b \<noteq> []" by simp_all
    with a have "b \<noteq> e" by auto
    with d e \<open>b \<in> set (ip_bindings m1)\<close> show ?thesis by (blast dest: distinct_bid_neq)
  qed
  have g1: "e \<in> set (ip_bindings (snd (block_client m1 n)))"
  proof (cases "find_client_in_ip_bindings (clients_cache m1) n")
    case None
    then show ?thesis using e by (simp add: block_client_def)
  next
    case (Some b)
    obtain r m' where s: "set_ip_binding (bid b) (\<lambda>x. x\<lparr>btype := ''blocked''\<rparr>) m1 = (r, m')"
      by (cases "set_ip_binding (bid b) (\<lambda>x. x\<lparr>btype := ''blocked''\<rparr>) m1")
    from set_ip_binding_keeps [OF s e] other [OF Some] have "e \<in> set (ip_bindings m')" by simp
    with Some s show ?thesis by (simp add: block_client_def)
  qed
  have g2: "e \<in> set (ip_bindings (snd (activate_client m1 n)))"
  proof (cases "find_client_in_ip_bindings (clients_cache m1) n")
    case None
    then show ?thesis using e by (simp add: activate_client_def)
  next
    case (Some b)
    obtain r m' where s: "set_ip_binding (bid b) (\<lambda>x. x\<lparr>btype := ''bypassed''\<rparr>) m1 = (r, m')"
      by (cases "set_ip_binding (bid b) (\<lambda>x. x\<lparr>btype := ''bypassed''\<rparr>) m1")
    from set_ip_binding_keeps [OF s e] other [OF Some] have "e \<in> set (ip_bindings m')" by simp
    with Some s show ?thesis by (simp add: activate_client_def)
  qed
  have g3: "e \<in> set (ip_bindings (snd (update_client_name m1 n x)))"
  proof (cases "find_client_in_ip_bindings (clients_cache m1) n")
    case None
    then show ?thesis using e by (simp add: update_client_name_def)
  next
    case (Some b)
    obtain r m' where s: "set_ip_binding (bid b)
        (\<lambda>y. y\<lparr>comment := name_comment (comment b) x\<rparr>) m1 = (r, m')"
      by (cases "set_ip_binding (bid b) (\<lambda>y. y\<lparr>comment := name_comment (comment b) x\<rparr>) m1")
    from set_ip_binding_keeps [OF s e] other [OF Some] have "e \<in> set (ip_bindings m')" by simp
    with Some s e show ?thesis by (simp add: update_client_name_def Let_def)
  qed
  have g4: "e \<in> set (ip_bindings (snd (update_client_phone m1 n x)))"
  proof (cases "find_client_in_ip_bindings (clients_cache m1) n")
    case None
    then show ?thesis using e by (simp add: update_client_phone_def)
  next
    case (Some b)
    obtain r m' where s: "set_ip_binding (bid b)
        (\<lambda>y. y\<lparr>comment := phone_comment (comment b) x\<rparr>) m1 = (r, m')"
      by (cases "set_ip_binding (bid b) (\<lambda>y. y\<lparr>comment := phone_comment (comment b) x\<rparr>) m1")
    from set_ip_binding_keeps [OF s e] other [OF Some] have "e \<in> set (ip_bindings m')" by simp
    with Some s e show ?thesis by (simp add: update_client_phone_def Let_def)
  qed
    from g1 g2 g3 g4 show "e \<in> set (ip_bindings (snd (block_client m1 n))) \<and>
      e \<in> set (ip_bindings (snd (activate_client m1 n))) \<and>
      e \<in> set (ip_bindings (snd (update_client_name m1 n x))) \<and>
      e \<in> set (ip_bindings (snd (update_client_phone m1 n x)))" by simp
  qed
  show ?thesis by (intro conjI p1 p2 p3)
qed

theorem directory_entries_have_comments_witness:
  "(clients_cache (example_router [example_no_comment, example_ali_1])
      = fst (load_clients (example_router [example_no_comment, example_ali_1])) \<and>
    distinct (map bid [example_no_comment, example_ali_1]) \<and>
    comment example_no_comment = []) \<and>
   fst (block_client (example_router [example_no_comment, example_ali_1]) ''Ali'') \<and>
   example_no_comment
     \<in> set (ip_bindings (snd (block_client (example_router [example_no_comment, example_ali_1]) ''Ali'')))"
proof -
  let ?m = "example_router [example_no_comment, example_ali_1]"
  have h: "clients_cache ?m = fst (load_clients ?m) \<and> ip_bindings ?m = ip_bindings ?m \<and>
      distinct (map bid (ip_bindings ?m)) \<and> example_no_comment \<in> set (ip_bindings ?m) \<and>
      comment example_no_comment = []"
    by (simp add: load_clients_def get_ip_bindings_def api_raises_def)
  have b: "fst (block_client ?m ''Ali'')"
    by code_simp
  from directory_entries_have_comments [of ?m] h
  have "example_no_comment \<in> set (ip_bindings (snd (block_client ?m ''Ali'')))"
    by blast
  with h b show ?thesis by simp
qed

section \<open>Scheduling a block at a date\<close>

lemma is_digit_not_special:
  "is_digit c \<Longrightarrow>
     \<not> is_space c \<and> \<not> int_space c \<and> c \<noteq> CHR ''+'' \<and> c \<noteq> CHR ''-'' \<and> c \<noteq> CHR ''_''"
  by (auto simp: is_digit_def is_space_def int_space_def Let_def)

lemma dropWhile_digits:
  "ds \<noteq> [] \<Longrightarrow> list_all is_digit ds \<Longrightarrow> dropWhile int_space ds = ds"
  by (cases ds) (auto simp: is_digit_not_special)

lemma int_strip_digits:
  assumes "ds \<noteq> []" "list_all is_digit ds"
  shows "rev (dropWhile int_space (rev (dropWhile int_space ds))) = ds"
proof -
  have "rev ds \<noteq> []" "list_all is_digit (rev ds)" using assms by (simp_all add: list_all_iff)
  then have "dropWhile int_space (rev ds) = rev ds" by (rule dropWhile_digits)
  then show ?thesis using assms by (simp add: dropWhile_digits)
qed

lemma digits_ok_digits: "ds \<noteq> [] \<Longrightarrow> list_all is_digit ds \<Longrightarrow> digits_ok ds"
  by (induction ds rule: digits_ok.induct) (auto simp: is_digit_not_special)

lemma filter_underscore_digits:
  "list_all is_digit ds \<Longrightarrow> filter (\<lambda>c. c \<noteq> CHR ''_'') ds = ds"
  by (induction ds) (auto simp: is_digit_not_special)

lemma py_int_digits:
  assumes "ds \<noteq> []" "list_all is_digit ds"
  shows "py_int ds = Some (digits_value ds)"
proof -
  obtain c r where ds: "ds = c # r" using assms(1) by (cases ds) auto
  then have c: "c \<noteq> CHR ''+''" "c \<noteq> CHR ''-''" using assms(2) by (auto simp: is_digit_not_special)
  have body: "(case rev (dropWhile int_space (rev (dropWhile int_space ds))) of
                 [] \<Rightarrow> (1, [])
               | c # r \<Rightarrow> if c = CHR ''+'' then (1, r) else if c = CHR ''-'' then (- 1, r)
                          else (1, rev (dropWhile int_space (rev (dropWhile int_space ds)))))
              = (1 :: int, ds)"
    by (simp only: int_strip_digits [OF assms]) (simp add: ds c)
  show ?thesis
    unfolding py_int_def Let_def body
    using assms by (simp add: digits_ok_digits filter_underscore_digits)
qed

lemma split_once_char_none: "c \<notin> set a \<Longrightarrow> split_once [c] a = None"
  by (induction a) auto

lemma split_once_char: "c \<notin> set a \<Longrightarrow> split_once [c] (a @ c # b) = Some (a, b)"
  by (induction a) auto

lemma digits_no_dash: "list_all is_digit ds \<Longrightarrow> CHR ''-'' \<notin> set ds"
  using is_digit_not_special by (auto simp: list_all_iff)

lemma py_split_date:
  assumes "list_all is_digit ds" "list_all is_digit ms" "list_all is_digit ys"
  shows "py_split ''-'' (ds @ ''-'' @ ms @ ''-'' @ ys) = [ds, ms, ys]"
proof -
  have 1: "split_once ''-'' (ds @ CHR ''-'' # (ms @ CHR ''-'' # ys)) = Some (ds, ms @ CHR ''-'' # ys)"
    using assms(1) by (intro split_once_char digits_no_dash)
  have 2: "split_once ''-'' (ms @ CHR ''-'' # ys) = Some (ms, ys)"
    using assms(2) by (intro split_once_char digits_no_dash)
  have 3: "split_once ''-'' ys = None"
    using assms(3) by (intro split_once_char_none digits_no_dash)
  have "py_split ''-'' ys = [ys]" by (subst py_split.simps) (simp add: 3)
  then have "py_split ''-'' (ms @ CHR ''-'' # ys) = [ms, ys]"
    by (subst py_split.simps) (simp add: 2)
  then have "py_split ''-'' (ds @ CHR ''-'' # (ms @ CHR ''-'' # ys)) = [ds, ms, ys]"
    by (subst py_split.simps) (simp add: 1)
  then show ?thesis by simp
qed

lemma is_date_in_future_digits:
  assumes "ds \<noteq> []" "list_all is_digit ds" "ms \<noteq> []" "list_all is_digit ms"
    "ys \<noteq> []" "list_all is_digit ys"
  shows "is_date_in_future today (ds @ ''-'' @ ms @ ''-'' @ ys) \<longleftrightarrow>
         py_datetime (digits_value ys) (digits_value ms) (digits_value ds) \<noteq> None \<and>
         date_gt (digits_value ys, digits_value ms, digits_value ds) today"
  unfolding is_date_in_future_def
  by (simp only: py_split_date [OF assms(2,4,6)] py_int_digits [OF assms(1,2)]
        py_int_digits [OF assms(3,4)] py_int_digits [OF assms(5,6)] list.case option.case)
     (auto simp: py_datetime_def)


lemma digits_value_zero_Cons: "digits_value (CHR ''0'' # ds) = digits_value ds"
  by (simp add: digits_value_def)

lemma zfill_digits:
  assumes "ms \<noteq> []" "list_all is_digit ms"
  shows "zfill 2 ms \<noteq> [] \<and> list_all is_digit (zfill 2 ms) \<and>
         digits_value (zfill 2 ms) = digits_value ms"
proof (cases "length ms \<ge> 2")
  case True
  then show ?thesis using assms by (simp add: zfill_def)
next
  case False
  then have "length ms < 2" by simp
  moreover have "length ms \<noteq> 0" using assms(1) by simp
  ultimately have "length ms = Suc 0" by arith
  then obtain c where ms: "ms = [c]" by (auto simp: length_Suc_conv)
  then have "is_digit c" using assms(2) by simp
  then have c: "c \<noteq> CHR ''+''" "c \<noteq> CHR ''-''" by (auto simp: is_digit_not_special)
  have "is_digit (CHR ''0'')" by (simp add: is_digit_def)
  then show ?thesis
    using c \<open>is_digit c\<close> by (simp add: zfill_def ms digits_value_zero_Cons)
qed

lemma py_index_month_names:
  "1 \<le> mi \<Longrightarrow> mi \<le> 12 \<Longrightarrow> py_index month_names (mi - 1) = Some (month_names ! nat (mi - 1))"
  by (simp add: py_index_def month_names_def)

lemma find_existing_schedule_ok:
  "failures m = [] \<Longrightarrow>
   find_existing_schedule m n = (find (\<lambda>j. sname j = n) (scheduler m), m)"
  by (simp add: find_existing_schedule_def get_scheduler_def api_raises_def)

lemma delete_existing_schedule_ok:
  assumes "failures m = []"
  shows "failures (snd (delete_existing_schedule m n)) = []"
proof (cases "find (\<lambda>j. sname j = n) (scheduler m)")
  case None
  then show ?thesis
    using assms by (simp add: delete_existing_schedule_def find_existing_schedule_ok)
next
  case (Some j)
  then show ?thesis
    using assms
    by (simp add: delete_existing_schedule_def find_existing_schedule_ok remove_scheduler_def
        api_raises_def)
qed

lemma add_scheduler_ok:
  "failures m = [] \<Longrightarrow>
   add_scheduler job m = (False, m\<lparr>scheduler := scheduler m @
       [job\<lparr>sid := fresh_id (map sid (scheduler m))\<rparr>]\<rparr>)"
  by (simp add: add_scheduler_def api_raises_def)

lemma schedule_block_client_ok:
  assumes d: "ds \<noteq> []" "list_all is_digit ds" "ms \<noteq> []" "list_all is_digit ms"
    "ys \<noteq> []" "list_all is_digit ys"
    and fut: "is_date_in_future today (ds @ ''-'' @ ms @ ''-'' @ ys)"
    and ok: "failures m = []"
  shows "fst (schedule_block_client today m n mac (ds @ ''-'' @ ms @ ''-'' @ ys)) \<and>
         (\<exists>j \<in> set (scheduler (snd (schedule_block_client today m n mac (ds @ ''-'' @ ms @ ''-'' @ ys)))).
            sname j = n \<and> start_time j = ''23:59:00'' \<and> on_event j = script_content mac)"
proof -
  let ?bd = "ds @ ''-'' @ ms @ ''-'' @ ys"
  let ?ex = "find (\<lambda>j. sname j = n) (scheduler m)"
  define m2 where "m2 = (if ?ex \<noteq> None then snd (delete_existing_schedule m n) else m)"
  have m2: "failures m2 = []"
    using ok by (simp add: m2_def delete_existing_schedule_ok)
  from fut have "py_datetime (digits_value ys) (digits_value ms) (digits_value ds) \<noteq> None"
    using is_date_in_future_digits [OF d] by simp
  then have mo: "1 \<le> digits_value ms" "digits_value ms \<le> 12"
    by (auto simp: py_datetime_def split: if_splits)
  have zm: "py_int (zfill 2 ms) = Some (digits_value ms)"
    using zfill_digits [OF d(3,4)] py_int_digits [of "zfill 2 ms"] by simp
  define job where "job = \<lparr>sid = 0, sname = n,
      start_date = month_names ! nat (digits_value ms - 1) @ ''/'' @ zfill 2 ds @ ''/20'' @
                     drop (length ys - 2) ys,
      start_time = ''23:59:00'', sinterval = ''00:00:00'',
      on_event = script_content mac,
      policy = ''ftp,reboot,read,write,policy,test,password,sniff,sensitive,romon''\<rparr>"
  have r: "schedule_block_client today m n mac ?bd =
           (True, m2\<lparr>scheduler := scheduler m2 @ [job\<lparr>sid := fresh_id (map sid (scheduler m2))\<rparr>]\<rparr>)"
    unfolding schedule_block_client_def
    by (simp only: fut find_existing_schedule_ok [OF ok] py_split_date [OF d(2,4,6)]
          zm py_index_month_names [OF mo] Let_def m2_def [symmetric] job_def [symmetric]
          add_scheduler_ok [OF m2] not_True_eq_False not_False_eq_True if_False if_True
          prod.case list.case option.case snd_conv)
  show ?thesis unfolding r by (simp add: job_def)
qed

text \<open>
  C5.  A date string \<open>D-M-YYYY\<close> made of three groups of decimal digits is accepted by
  \<open>is_date_in_future\<close>, the gate of \<open>schedule_block_client\<close>, exactly when day, month and
  year form a calendar date that lies strictly after today's date; only year, month and day
  are compared.  A rejected date makes \<open>schedule_block_client\<close> return \<open>False\<close> without
  touching the router; an accepted date is scheduled, on a router that answers every call,
  as a job named after the client that fires at 23:59:00.
\<close>

theorem schedule_accepts_strictly_future_dates:
  assumes "ds \<noteq> []" "list_all is_digit ds" "ms \<noteq> []" "list_all is_digit ms"
    "ys \<noteq> []" "list_all is_digit ys"
  shows
    "(is_date_in_future today (ds @ ''-'' @ ms @ ''-'' @ ys) \<longleftrightarrow>
        py_datetime (digits_value ys) (digits_value ms) (digits_value ds) \<noteq> None \<and>
        date_gt (digits_value ys, digits_value ms, digits_value ds) today) \<and>
     (\<not> is_date_in_future today (ds @ ''-'' @ ms @ ''-'' @ ys) \<longrightarrow>
        schedule_block_client today m n mac (ds @ ''-'' @ ms @ ''-'' @ ys) = (False, m)) \<and>
     (is_date_in_future today (ds @ ''-'' @ ms @ ''-'' @ ys) \<and> failures m = [] \<longrightarrow>
        fst (schedule_block_client today m n mac (ds @ ''-'' @ ms @ ''-'' @ ys)) \<and>
        (\<exists>j \<in> set (scheduler
                   (snd (schedule_block_client today m n mac (ds @ ''-'' @ ms @ ''-'' @ ys)))).
           sname j = n \<and> start_time j = ''23:59:00'' \<and> on_event j = script_content mac))"
proof (intro conjI impI)
  show "is_date_in_future today (ds @ ''-'' @ ms @ ''-'' @ ys) \<longleftrightarrow>
        py_datetime (digits_value ys) (digits_value ms) (digits_value ds) \<noteq> None \<and>
        date_gt (digits_value ys, digits_value ms, digits_value ds) today"
    by (rule is_date_in_future_digits [OF assms])
next
  assume "\<not> is_date_in_future today (ds @ ''-'' @ ms @ ''-'' @ ys)"
  then show "schedule_block_client today m n mac (ds @ ''-'' @ ms @ ''-'' @ ys) = (False, m)"
    unfolding schedule_block_client_def by (simp only: if_True not_False_eq_True)
next
  assume a: "is_date_in_future today (ds @ ''-'' @ ms @ ''-'' @ ys) \<and> failures m = []"
  from schedule_block_client_ok [OF assms conjunct1 [OF a] conjunct2 [OF a], of n mac]
  show "fst (schedule_block_client today m n mac (ds @ ''-'' @ ms @ ''-'' @ ys))"
    by (rule conjunct1)
  from schedule_block_client_ok [OF assms conjunct1 [OF a] conjunct2 [OF a], of n mac]
  show "\<exists>j \<in> set (scheduler
                   (snd (schedule_block_client today m n mac (ds @ ''-'' @ ms @ ''-'' @ ys)))).
           sname j = n \<and> start_time j = ''23:59:00'' \<and> on_event j = script_content mac"
    by (rule conjunct2)
qed

theorem schedule_accepts_strictly_future_dates_witness:
  "is_date_in_future (2026, 6, 4) ''5-6-2026'' \<and>
   \<not> is_date_in_future (2026, 6, 5) ''5-6-2026'' \<and>
   \<not> is_date_in_future (2026, 6, 5) ''5-6-2020'' \<and>
   schedule_block_client (2026, 6, 5) (example_router [example_ali_1]) ''Ali''
     ''AA:BB:CC:DD:EE:01'' ''5-6-2020'' = (False, example_router [example_ali_1]) \<and>
   fst (schedule_block_client (2026, 6, 4) (example_router [example_ali_1]) ''Ali''
     ''AA:BB:CC:DD:EE:01'' ''5-6-2026'')"
proof -
  let ?m = "example_router [example_ali_1]"
  have d: "''5'' \<noteq> []" "list_all is_digit ''5''" "''6'' \<noteq> []" "list_all is_digit ''6''"
    by (simp_all add: is_digit_def)
  have y26: "''2026'' \<noteq> []" "list_all is_digit ''2026''"
    and y20: "''2020'' \<noteq> []" "list_all is_digit ''2020''"
    by (simp_all add: is_digit_def)
  have v: "digits_value ''5'' = 5" "digits_value ''6'' = 6"
    "digits_value ''2026'' = 2026" "digits_value ''2020'' = 2020"
    by (simp_all add: digits_value_def)
  have dt: "py_datetime 2026 6 5 \<noteq> None" "py_datetime 2020 6 5 \<noteq> None"
    by (simp_all add: py_datetime_def days_in_month_def)
  note a = schedule_accepts_strictly_future_dates [OF d y26, of "(2026, 6, 4)" ?m "''Ali''"
      "''AA:BB:CC:DD:EE:01''", unfolded v]
  note b = schedule_accepts_strictly_future_dates [OF d y26, of "(2026, 6, 5)" ?m "''Ali''"
      "''AA:BB:CC:DD:EE:01''", unfolded v]
  note c = schedule_accepts_strictly_future_dates [OF d y20, of "(2026, 6, 5)" ?m "''Ali''"
      "''AA:BB:CC:DD:EE:01''", unfolded v]
  have 1: "is_date_in_future (2026, 6, 4) (''5'' @ ''-'' @ ''6'' @ ''-'' @ ''2026'')"
    using a dt by simp
  have 2: "\<not> is_date_in_future (2026, 6, 5) (''5'' @ ''-'' @ ''6'' @ ''-'' @ ''2026'')"
    using b by simp
  have 3: "\<not> is_date_in_future (2026, 6, 5) (''5'' @ ''-'' @ ''6'' @ ''-'' @ ''2020'')"
    using c by simp
  have 4: "schedule_block_client (2026, 6, 5) ?m ''Ali'' ''AA:BB:CC:DD:EE:01''
             (''5'' @ ''-'' @ ''6'' @ ''-'' @ ''2020'') = (False, ?m)"
    using c 3 by blast
  have 5: "fst (schedule_block_client (2026, 6, 4) ?m ''Ali'' ''AA:BB:CC:DD:EE:01''
             (''5'' @ ''-'' @ ''6'' @ ''-'' @ ''2026''))"
    using a 1 by simp
  from 1 2 3 4 5 show ?thesis by simp
qed

section \<open>Renaming the name part and the phone part\<close>

lemma py_in_char: "py_in [c] s \<longleftrightarrow> c \<in> set s"
  by (induction s) auto

lemma py_in_at_sep: "\<not> py_in '' @'' a \<Longrightarrow> py_in '' @'' (a @ '' @'' @ b)"
  using split_once_at_sep [of a b] by (simp add: py_in_iff_split_once)

lemma comments_with_separator:
  assumes "\<not> py_in '' @'' a"
  shows "name_comment (a @ '' @'' @ b) new_name = py_strip new_name @ '' @'' @ b"
    and "phone_comment (a @ '' @'' @ b) new_phone = a @ '' @'' @ py_strip new_phone"
  using py_in_at_sep [OF assms, of b] split_once_at_sep [OF assms, of b]
  by (simp_all add: name_comment_def phone_comment_def py_split1_def)

lemma phone_comment_no_at:
  "\<not> py_in ''@'' c \<Longrightarrow> \<not> py_in '' @'' c \<and> phone_comment c new_phone = c @ '' @'' @ py_strip new_phone"
proof -
  assume a: "\<not> py_in ''@'' c"
  have "split_once '' @'' c = None"
  proof (cases "split_once '' @'' c")
    case None then show ?thesis .
  next
    case (Some ab)
    then obtain x y where "split_once '' @'' c = Some (x, y)" by (cases ab) auto
    then have "c = x @ '' @'' @ y" by (rule split_once_Some_eq)
    then have "CHR ''@'' \<in> set c" by simp
    with a show ?thesis by (simp add: py_in_char)
  qed
  then have "\<not> py_in '' @'' c" by (simp add: py_in_iff_split_once)
  with a show ?thesis by (simp add: phone_comment_def)
qed

lemma comments_with_bare_at:
  assumes "\<not> py_in '' @'' (a @ ''@'' @ b)" "\<not> py_in ''@'' a"
  shows "phone_comment (a @ ''@'' @ b) new_phone = a @ '' @'' @ py_strip new_phone"
    and "name_comment (a @ ''@'' @ b) new_name = py_strip new_name @ '' @'' @ b"
proof -
  have s: "split_once ''@'' (a @ ''@'' @ b) = Some (a, b)"
    using assms(2) split_once_char [of "CHR ''@''" a b] by (simp add: py_in_char)
  then have i: "py_in ''@'' (a @ ''@'' @ b)" by (simp add: py_in_iff_split_once)
  show "phone_comment (a @ ''@'' @ b) new_phone = a @ '' @'' @ py_strip new_phone"
    using assms(1) s i by (simp add: phone_comment_def py_split1_def)
  show "name_comment (a @ ''@'' @ b) new_name = py_strip new_name @ '' @'' @ b"
    using assms(1) s i by (simp add: name_comment_def py_split1_def)
qed

lemma update_client_name_success:
  assumes "update_client_name m client_name new_name = ((True, None), m')"
  shows "\<exists>e. find_client_in_ip_bindings (clients_cache m) client_name = Some e \<and>
             comment e \<noteq> [] \<and> bid e \<in> set (map bid (ip_bindings m)) \<and>
             ip_bindings m' =
               map (\<lambda>b. if bid b = bid e then b\<lparr>comment := name_comment (comment e) new_name\<rparr>
                         else b) (ip_bindings m)"
proof (cases "find_client_in_ip_bindings (clients_cache m) client_name")
  case None
  with assms show ?thesis by (simp add: update_client_name_def)
next
  case (Some e)
  show ?thesis
  proof (cases "comment e = []")
    case True
    with Some assms show ?thesis by (simp add: update_client_name_def)
  next
    case False
    obtain r m1 where s: "set_ip_binding (bid e)
        (\<lambda>b. b\<lparr>comment := name_comment (comment e) new_name\<rparr>) m = (r, m1)"
      by (cases "set_ip_binding (bid e) (\<lambda>b. b\<lparr>comment := name_comment (comment e) new_name\<rparr>) m")
    with Some False assms have r: "\<not> r" and m': "m' = refresh_clients_cache m1"
      by (auto simp: update_client_name_def Let_def split: if_splits)
    from set_ip_binding_effect [OF s] r m' Some False show ?thesis by simp
  qed
qed

lemma update_client_phone_success:
  assumes "update_client_phone m client_name new_phone = ((True, None), m')"
  shows "\<exists>e. find_client_in_ip_bindings (clients_cache m) client_name = Some e \<and>
             comment e \<noteq> [] \<and> bid e \<in> set (map bid (ip_bindings m)) \<and>
             ip_bindings m' =
               map (\<lambda>b. if bid b = bid e then b\<lparr>comment := phone_comment (comment e) new_phone\<rparr>
                         else b) (ip_bindings m)"
proof (cases "find_client_in_ip_bindings (clients_cache m) client_name")
  case None
  with assms show ?thesis by (simp add: update_client_phone_def)
next
  case (Some e)
  show ?thesis
  proof (cases "comment e = []")
    case True
    with Some assms show ?thesis by (simp add: update_client_phone_def)
  next
    case False
    obtain r m1 where s: "set_ip_binding (bid e)
        (\<lambda>b. b\<lparr>comment := phone_comment (comment e) new_phone\<rparr>) m = (r, m1)"
      by (cases "set_ip_binding (bid e) (\<lambda>b. b\<lparr>comment := phone_comment (comment e) new_phone\<rparr>) m")
    with Some False assms have r: "\<not> r" and m': "m' = refresh_clients_cache m1"
      by (auto simp: update_client_phone_def Let_def split: if_splits)
    from set_ip_binding_effect [OF s] r m' Some False show ?thesis by simp
  qed
qed

text \<open>
  C7 (as amended).  Write a comment that contains the separator as \<open>a @b\<close>, with \<open>a\<close> the
  text before the first \<open>' @'\<close>.  \<open>update_client_name\<close> stores the stripped new name, the
  separator and \<open>b\<close> unchanged; \<open>update_client_phone\<close> stores \<open>a\<close> unchanged, the
  separator and the stripped new phone.  A comment with no \<open>@\<close> at all gets the separator and
  the new phone appended.  A comment with an \<open>@\<close> but no \<open>' @'\<close> is cut at its first
  \<open>@\<close>: renaming the phone keeps the text before that \<open>@\<close> and replaces the rest by the
  separator and the new phone.  A successful operation changes, on the router, the comment
  of the bindings with the id of the record it found, and nothing else.
\<close>

theorem rename_rewrites_one_half:
  "(\<not> py_in '' @'' a \<longrightarrow>
      name_comment (a @ '' @'' @ b) new_name = py_strip new_name @ '' @'' @ b \<and>
      phone_comment (a @ '' @'' @ b) new_phone = a @ '' @'' @ py_strip new_phone) \<and>
   (\<not> py_in ''@'' c \<longrightarrow>
      phone_comment c new_phone = c @ '' @'' @ py_strip new_phone) \<and>
   (\<not> py_in '' @'' (a @ ''@'' @ b) \<and> \<not> py_in ''@'' a \<longrightarrow>
      phone_comment (a @ ''@'' @ b) new_phone = a @ '' @'' @ py_strip new_phone) \<and>
   (update_client_name m client_name new_name = ((True, None), m') \<longrightarrow>
      (\<exists>e. find_client_in_ip_bindings (clients_cache m) client_name = Some e \<and>
           comment e \<noteq> [] \<and> bid e \<in> set (map bid (ip_bindings m)) \<and>
           ip_bindings m' =
             map (\<lambda>b. if bid b = bid e then b\<lparr>comment := name_comment (comment e) new_name\<rparr>
                       else b) (ip_bindings m))) \<and>
   (update_client_phone m client_name new_phone = ((True, None), m') \<longrightarrow>
      (\<exists>e. find_client_in_ip_bindings (clients_cache m) client_name = Some e \<and>
           comment e \<noteq> [] \<and> bid e \<in> set (map bid (ip_bindings m)) \<and>
           ip_bindings m' =
             map (\<lambda>b. if bid b = bid e then b\<lparr>comment := phone_comment (comment e) new_phone\<rparr>
                       else b) (ip_bindings m)))"
proof (intro conjI impI)
  assume "\<not> py_in '' @'' a"
  then show "name_comment (a @ '' @'' @ b) new_name = py_strip new_name @ '' @'' @ b"
    and "phone_comment (a @ '' @'' @ b) new_phone = a @ '' @'' @ py_strip new_phone"
    by (rule comments_with_separator)+
next
  assume "\<not> py_in ''@'' c"
  then show "phone_comment c new_phone = c @ '' @'' @ py_strip new_phone"
    using phone_comment_no_at by blast
next
  assume "\<not> py_in '' @'' (a @ ''@'' @ b) \<and> \<not> py_in ''@'' a"
  then show "phone_comment (a @ ''@'' @ b) new_phone = a @ '' @'' @ py_strip new_phone"
    using comments_with_bare_at(1) by blast
next
  assume "update_client_name m client_name new_name = ((True, None), m')"
  then show "\<exists>e. find_client_in_ip_bindings (clients_cache m) client_name = Some e \<and>
           comment e \<noteq> [] \<and> bid e \<in> set (map bid (ip_bindings m)) \<and>
           ip_bindings m' =
             map (\<lambda>b. if bid b = bid e then b\<lparr>comment := name_comment (comment e) new_name\<rparr>
                       else b) (ip_bindings m)"
    by (rule update_client_name_success)
next
  assume "update_client_phone m client_name new_phone = ((True, None), m')"
  then show "\<exists>e. find_client_in_ip_bindings (clients_cache m) client_name = Some e \<and>
           comment e \<noteq> [] \<and> bid e \<in> set (map bid (ip_bindings m)) \<and>
           ip_bindings m' =
             map (\<lambda>b. if bid b = bid e then b\<lparr>comment := phone_comment (comment e) new_phone\<rparr>
                       else b) (ip_bindings m)"
    by (rule update_client_phone_success)
qed

theorem rename_rewrites_one_half_witness:
  "name_comment ''Ali @0100'' '' Omar '' = ''Omar @0100'' \<and>
   phone_comment ''Ali @0100'' '' 0200 '' = ''Ali @0200'' \<and>
   phone_comment ''Ali'' ''0200'' = ''Ali @0200'' \<and>
   phone_comment ''ali@0100'' ''0200'' = ''ali @0200'' \<and>
   fst (update_client_name (example_router [example_ali_1]) ''Ali'' '' Omar '') = (True, None) \<and>
   map comment (ip_bindings (snd (update_client_name (example_router [example_ali_1])
                                     ''Ali'' '' Omar ''))) = [''Omar @0100''] \<and>
   fst (update_client_phone (example_router [example_ali_1]) ''Ali'' '' 0200 '') = (True, None) \<and>
   map comment (ip_bindings (snd (update_client_phone (example_router [example_ali_1])
                                     ''Ali'' '' 0200 ''))) = [''Ali @0200'']"
proof -
  let ?m = "example_router [example_ali_1]"
  have st: "py_strip '' Omar '' = ''Omar''" "py_strip '' 0200 '' = ''0200''"
    "py_strip ''0200'' = ''0200''"
    by (simp_all add: py_strip_def is_space_def)
  have h1: "\<not> py_in '' @'' ''Ali''" and h2: "\<not> py_in ''@'' ''Ali''"
    and h3: "\<not> py_in '' @'' (''ali'' @ ''@'' @ ''0100'') \<and> \<not> py_in ''@'' ''ali''"
    by simp_all
  note t = rename_rewrites_one_half
  have 1: "name_comment (''Ali'' @ '' @'' @ ''0100'') '' Omar '' = ''Omar @0100''"
    using t [of "''Ali''" "''0100''" "'' Omar ''"] h1 by (simp add: st)
  have 2: "phone_comment (''Ali'' @ '' @'' @ ''0100'') '' 0200 '' = ''Ali @0200''"
    using t [of "''Ali''" "''0100''" _ "'' 0200 ''"] h1 by (simp add: st)
  have 3: "phone_comment ''Ali'' ''0200'' = ''Ali @0200''"
    using t [of _ _ _ "''0200''" "''Ali''"] h2 by (simp add: st)
  have 4: "phone_comment (''ali'' @ ''@'' @ ''0100'') ''0200'' = ''ali @0200''"
    using t [of "''ali''" "''0100''" _ "''0200''"] h3 by (simp add: st)
  have f: "find_client_in_ip_bindings (clients_cache ?m) ''Ali'' = Some example_ali_1"
    by code_simp
  let ?m1 = "snd (update_client_name ?m ''Ali'' '' Omar '')"
  let ?m2 = "snd (update_client_phone ?m ''Ali'' '' 0200 '')"
  have r1: "fst (update_client_name ?m ''Ali'' '' Omar '') = (True, None)"
    by code_simp
  then have u1: "update_client_name ?m ''Ali'' '' Omar '' = ((True, None), ?m1)"
    by (simp add: prod_eq_iff)
  have 5: "map comment (ip_bindings ?m1) = [''Omar @0100'']"
    using t [of _ _ "'' Omar ''" _ _ ?m "''Ali''" ?m1] u1 f 1 by auto
  have r2: "fst (update_client_phone ?m ''Ali'' '' 0200 '') = (True, None)"
    by code_simp
  then have u2: "update_client_phone ?m ''Ali'' '' 0200 '' = ((True, None), ?m2)"
    by (simp add: prod_eq_iff)
  have 6: "map comment (ip_bindings ?m2) = [''Ali @0200'']"
    using t [of _ _ _ "'' 0200 ''" _ ?m "''Ali''" ?m2] u2 f 2 by auto
  from 1 2 3 4 5 6 r1 r2 show ?thesis by simp
qed

theorem rename_phone_bare_at_counterexample:
  "\<not> py_in '' @'' (comment example_bare) \<and>
   fst (update_client_phone (example_router [example_bare]) ''ali@0100'' ''0200'') = (True, None) \<and>
   map comment (ip_bindings (snd (update_client_phone (example_router [example_bare])
                                     ''ali@0100'' ''0200''))) = [''ali @0200''] \<and>
   ''ali @0200'' \<noteq> comment example_bare @ '' @'' @ ''0200''"
  by code_simp

section \<open>Binding a MAC address to a client\<close>

lemma get_dhcp_leases_frame:
  "get_dhcp_leases m = (ls, m') \<Longrightarrow>
   ip_bindings m' = ip_bindings m \<and> clients_cache m' = clients_cache m"
  by (auto simp: get_dhcp_leases_def split: prod.splits if_splits dest: api_raises_frame)

lemma find_mac_by_ip_frame:
  assumes "find_mac_by_ip m ip = (r, m')"
  shows "ip_bindings m' = ip_bindings m \<and> clients_cache m' = clients_cache m"
proof -
  obtain ls m1 where g: "get_dhcp_leases m = (ls, m1)" by (cases "get_dhcp_leases m")
  obtain r2 m2 where a: "api_raises m1 = (r2, m2)" by (cases "api_raises m1")
  from assms g a have "m' = m1 \<or> m' = m2"
    by (auto simp: find_mac_by_ip_def split: option.splits if_splits)
  with get_dhcp_leases_frame [OF g] api_raises_frame [OF a] show ?thesis by auto
qed

lemma resolve_frame:
  assumes "(if is_ip_address x then find_mac_by_ip m x else (Some x, m)) = (r, m1)"
  shows "ip_bindings m1 = ip_bindings m \<and> clients_cache m1 = clients_cache m"
  using assms find_mac_by_ip_frame [of m x r m1] by (auto split: if_splits)

lemma find_mac_in_ip_bindings_frame:
  assumes "find_mac_in_ip_bindings m mac = (r, m')"
  shows "ip_bindings m' = ip_bindings m \<and> clients_cache m' = clients_cache m \<and>
         (r = None \<or> r = find (\<lambda>b. py_lower (mac_address b) = py_lower mac) (ip_bindings m))"
  using assms
  by (auto simp: find_mac_in_ip_bindings_def get_ip_bindings_def
      split: prod.splits if_splits dest: api_raises_frame)

lemma find_mac_in_ip_bindings_ok:
  assumes "\<not> fst (api_raises m)"
  shows "find_mac_in_ip_bindings m mac =
           (find (\<lambda>b. py_lower (mac_address b) = py_lower mac) (ip_bindings m),
            snd (api_raises m))"
  using assms
  by (auto simp: find_mac_in_ip_bindings_def get_ip_bindings_def
      split: prod.splits if_splits dest: api_raises_frame)

lemma delete_ip_binding_by_id_effect:
  "delete_ip_binding_by_id m i = (deleted, m') \<Longrightarrow>
   clients_cache m' = clients_cache m \<and>
   (if deleted then i \<in> set (map bid (ip_bindings m)) \<and>
                    ip_bindings m' = filter (\<lambda>b. bid b \<noteq> i) (ip_bindings m)
    else ip_bindings m' = ip_bindings m)"
  by (auto simp: delete_ip_binding_by_id_def remove_ip_binding_def
      split: prod.splits if_splits dest: api_raises_frame)

lemma add_ip_binding_effect:
  "add_ip_binding mac ty cmt m = (raised, m') \<Longrightarrow>
   clients_cache m' = clients_cache m \<and>
   (if raised then ip_bindings m' = ip_bindings m
    else ip_bindings m' = ip_bindings m @
           [\<lparr>bid = fresh_id (map bid (ip_bindings m)), mac_address = mac, btype = ty,
             comment = cmt\<rparr>])"
  by (auto simp: add_ip_binding_def split: prod.splits if_splits dest: api_raises_frame)

lemma add_new_client_already_exists:
  assumes "add_new_client m n x = ((False, Some ''Already-Exists''), m')"
  shows "ip_bindings m' = ip_bindings m \<and> clients_cache m' = clients_cache m"
proof (cases "find_client_in_ip_bindings (clients_cache m) n \<noteq> None")
  case True
  with assms show ?thesis by (simp add: add_new_client_def)
next
  case False
  obtain mo m1 where res: "(if is_ip_address x then find_mac_by_ip m x else (Some x, m)) = (mo, m1)"
    by (cases "if is_ip_address x then find_mac_by_ip m x else (Some x, m)")
  note f1 = resolve_frame [OF res]
  show ?thesis
  proof (cases mo)
    case None
    with assms False res show ?thesis by (simp add: add_new_client_def)
  next
    case (Some mac)
    obtain ex m2 where fm: "find_mac_in_ip_bindings m1 mac = (ex, m2)"
      by (cases "find_mac_in_ip_bindings m1 mac")
    note f2 = find_mac_in_ip_bindings_frame [OF fm]
    show ?thesis
    proof (cases ex)
      case None
      with assms False res Some fm show ?thesis
        by (simp add: add_new_client_def split: prod.splits if_splits)
    next
      case (Some e)
      show ?thesis
      proof (cases "is_unauthorized_user (comment e)")
        case True
        with assms False res \<open>mo = Some mac\<close> fm Some show ?thesis
          by (simp add: add_new_client_def split: prod.splits if_splits)
      next
        case no: False
        with assms False res \<open>mo = Some mac\<close> fm Some have "m' = m2"
          by (simp add: add_new_client_def)
        with f1 f2 show ?thesis by simp
      qed
    qed
  qed
qed


lemma update_client_mac_already_exists:
  assumes "update_client_mac m n x = ((False, Some ''Already-Exists''), m')"
  shows "ip_bindings m' = ip_bindings m \<and> clients_cache m' = clients_cache m"
proof (cases "find_client_in_ip_bindings (clients_cache m) n")
  case None
  with assms show ?thesis by (simp add: update_client_mac_def)
next
  case (Some b)
  obtain mo m1 where res: "(if is_ip_address x then find_mac_by_ip m x else (Some x, m)) = (mo, m1)"
    by (cases "if is_ip_address x then find_mac_by_ip m x else (Some x, m)")
  note f1 = resolve_frame [OF res]
  show ?thesis
  proof (cases mo)
    case None
    with assms Some res show ?thesis by (simp add: update_client_mac_def)
  next
    case mac: (Some mac)
    obtain ex m2 where fm: "find_mac_in_ip_bindings m1 mac = (ex, m2)"
      by (cases "find_mac_in_ip_bindings m1 mac")
    note f2 = find_mac_in_ip_bindings_frame [OF fm]
    show ?thesis
    proof (cases "\<exists>e. ex = Some e \<and> bid e \<noteq> bid b \<and> \<not> is_unauthorized_user (comment e)")
      case True
      with assms Some res mac fm have "m' = m2"
        by (auto simp: update_client_mac_def)
      with f1 f2 show ?thesis by simp
    next
      case False
      with assms Some res mac fm show ?thesis
        by (cases ex) (auto simp: update_client_mac_def Let_def split: prod.splits if_splits)
    qed
  qed
qed

lemma update_client_mac_success:
  assumes "update_client_mac m n x = ((True, None), m')"
  shows "\<exists>b mac kept.
           find_client_in_ip_bindings (clients_cache m) n = Some b \<and>
           fst (if is_ip_address x then find_mac_by_ip m x else (Some x, m)) = Some mac \<and>
           (kept = ip_bindings m \<or>
            (\<exists>p \<in> set (ip_bindings m).
               py_lower (mac_address p) = py_lower mac \<and> is_unauthorized_user (comment p) \<and>
               bid p \<noteq> bid b \<and> kept = filter (\<lambda>c. bid c \<noteq> bid p) (ip_bindings m))) \<and>
           bid b \<in> set (map bid kept) \<and>
           ip_bindings m' =
             map (\<lambda>c. if bid c = bid b
                       then (if btype b = ''blocked''
                             then c\<lparr>mac_address := mac, btype := ''bypassed''\<rparr>
                             else c\<lparr>mac_address := mac\<rparr>)
                       else c) kept"
proof (cases "find_client_in_ip_bindings (clients_cache m) n")
  case None
  with assms show ?thesis by (simp add: update_client_mac_def)
next
  case (Some b)
  obtain mo m1 where res: "(if is_ip_address x then find_mac_by_ip m x else (Some x, m)) = (mo, m1)"
    by (cases "if is_ip_address x then find_mac_by_ip m x else (Some x, m)")
  note f1 = resolve_frame [OF res]
  show ?thesis
  proof (cases mo)
    case None
    with assms Some res show ?thesis by (simp add: update_client_mac_def)
  next
    case mac: (Some mac)
    obtain ex m2 where fm: "find_mac_in_ip_bindings m1 mac = (ex, m2)"
      by (cases "find_mac_in_ip_bindings m1 mac")
    note f2 = find_mac_in_ip_bindings_frame [OF fm]
    let ?upd = "\<lambda>c. if bid c = bid b
                       then (if btype b = ''blocked''
                             then c\<lparr>mac_address := mac, btype := ''bypassed''\<rparr>
                             else c\<lparr>mac_address := mac\<rparr>)
                       else c"
    let ?set = "\<lambda>m4. if btype b = ''blocked''
                      then set_ip_binding (bid b) (\<lambda>b. b\<lparr>mac_address := mac, btype := ''bypassed''\<rparr>) m4
                      else set_ip_binding (bid b) (\<lambda>b. b\<lparr>mac_address := mac\<rparr>) m4"
    have final: "bid b \<in> set (map bid (ip_bindings m4)) \<and> ip_bindings m' = map ?upd (ip_bindings m4)"
      if "?set m4 = (False, m5)" "m' = refresh_clients_cache m5" for m4 m5
      using that set_ip_binding_effect [of "bid b" _ m4 False m5]
      by (auto split: if_splits)
    show ?thesis
    proof (cases "\<exists>e. ex = Some e \<and> bid e \<noteq> bid b")
      case False
      with assms Some res mac fm obtain m5 where "?set m2 = (False, m5)" "m' = refresh_clients_cache m5"
        by (cases ex) (auto simp: update_client_mac_def Let_def split: prod.splits if_splits)
      from final [OF this] f1 f2 have "bid b \<in> set (map bid (ip_bindings m)) \<and>
          ip_bindings m' = map ?upd (ip_bindings m)" by simp
      with Some res mac show ?thesis by auto
    next
      case True
      then obtain e where e: "ex = Some e" "bid e \<noteq> bid b" by blast
      with f2 have "find (\<lambda>b. py_lower (mac_address b) = py_lower mac) (ip_bindings m1) = Some e"
        by auto
      then have emem: "e \<in> set (ip_bindings m1)" "py_lower (mac_address e) = py_lower mac"
        by (auto dest: find_SomeD)
      obtain deleted m3 where del: "delete_ip_binding_by_id m2 (bid e) = (deleted, m3)"
        by (cases "delete_ip_binding_by_id m2 (bid e)")
      from assms Some res mac fm e del
      have un: "is_unauthorized_user (comment e)" and deleted
        and "\<exists>m5. ?set (refresh_clients_cache m3) = (False, m5) \<and> m' = refresh_clients_cache m5"
        by (auto simp: update_client_mac_def Let_def split: prod.splits if_splits)
      then obtain m5 where "?set (refresh_clients_cache m3) = (False, m5)"
        "m' = refresh_clients_cache m5" by blast
      from final [OF this] delete_ip_binding_by_id_effect [OF del] \<open>deleted\<close> f1 f2
      have "bid b \<in> set (map bid (filter (\<lambda>c. bid c \<noteq> bid e) (ip_bindings m))) \<and>
            ip_bindings m' = map ?upd (filter (\<lambda>c. bid c \<noteq> bid e) (ip_bindings m))"
        by simp
      with Some res mac un e emem f1 show ?thesis
        by (intro exI [of _ b] exI [of _ mac]
            exI [of _ "filter (\<lambda>c. bid c \<noteq> bid e) (ip_bindings m)"]) auto
    qed
  qed
qed

text \<open>
  What a successful \<open>update_client_mac\<close> does, told by the record \<open>b\<close> it found in the
  directory: on the router every binding with the id of \<open>b\<close> gets the new MAC; if \<open>b\<close> is
  blocked the same update sets the type to \<open>bypassed\<close>, otherwise the type stays.  No other
  binding changes, apart from an unauthorized placeholder holding the new MAC, which is removed.
\<close>

lemma update_client_mac_by_directory_record:
  assumes "update_client_mac m client_name mac_or_ip = ((True, None), m')"
  shows "\<exists>b mac kept.
           find_client_in_ip_bindings (clients_cache m) client_name = Some b \<and>
           fst (if is_ip_address mac_or_ip then find_mac_by_ip m mac_or_ip
                else (Some mac_or_ip, m)) = Some mac \<and>
           (kept = ip_bindings m \<or>
            (\<exists>p \<in> set (ip_bindings m).
               py_lower (mac_address p) = py_lower mac \<and> is_unauthorized_user (comment p) \<and>
               bid p \<noteq> bid b \<and> kept = filter (\<lambda>c. bid c \<noteq> bid p) (ip_bindings m))) \<and>
           bid b \<in> set (map bid kept) \<and>
           ip_bindings m' =
             map (\<lambda>c. if bid c = bid b
                       then (if btype b = ''blocked''
                             then c\<lparr>mac_address := mac, btype := ''bypassed''\<rparr>
                             else c\<lparr>mac_address := mac\<rparr>)
                       else c) kept \<and>
           (b \<in> set (ip_bindings m) \<longrightarrow>
              b\<lparr>mac_address := mac,
                btype := (if btype b = ''blocked'' then ''bypassed'' else btype b)\<rparr>
                \<in> set (ip_bindings m'))"
proof -
  from update_client_mac_success [OF assms] obtain b mac kept where
    f: "find_client_in_ip_bindings (clients_cache m) client_name = Some b"
    and r: "fst (if is_ip_address mac_or_ip then find_mac_by_ip m mac_or_ip
                 else (Some mac_or_ip, m)) = Some mac"
    and k: "kept = ip_bindings m \<or>
            (\<exists>p \<in> set (ip_bindings m).
               py_lower (mac_address p) = py_lower mac \<and> is_unauthorized_user (comment p) \<and>
               bid p \<noteq> bid b \<and> kept = filter (\<lambda>c. bid c \<noteq> bid p) (ip_bindings m))"
    and i: "bid b \<in> set (map bid kept)"
    and u: "ip_bindings m' =
             map (\<lambda>c. if bid c = bid b
                       then (if btype b = ''blocked''
                             then c\<lparr>mac_address := mac, btype := ''bypassed''\<rparr>
                             else c\<lparr>mac_address := mac\<rparr>)
                       else c) kept"
    by blast
  let ?upd = "\<lambda>c. if bid c = bid b
                       then (if btype b = ''blocked''
                             then c\<lparr>mac_address := mac, btype := ''bypassed''\<rparr>
                             else c\<lparr>mac_address := mac\<rparr>)
                       else c"
  have own: "b\<lparr>mac_address := mac,
                btype := (if btype b = ''blocked'' then ''bypassed'' else btype b)\<rparr>
                \<in> set (ip_bindings m')" if b: "b \<in> set (ip_bindings m)"
  proof -
    from k b have "b \<in> set kept" by auto
    then have "?upd b \<in> ?upd ` set kept" by (rule imageI)
    then have "?upd b \<in> set (ip_bindings m')" by (simp add: u)
    moreover have "?upd b = b\<lparr>mac_address := mac,
                btype := (if btype b = ''blocked'' then ''bypassed'' else btype b)\<rparr>"
      by simp
    ultimately show ?thesis by (simp only:)
  qed
  from f r k i u own show ?thesis by blast
qed

text \<open>
  When the directory is in step with the router, \<open>b\<close> is the router's own record, and a
  successful update leaves that record with the new MAC, \<open>bypassed\<close> if it was \<open>blocked\<close>.
\<close>

lemma update_client_mac_fresh_directory:
  assumes "update_client_mac m client_name mac_or_ip = ((True, None), m')"
    and "clients_cache m = load_clients_loop (ip_bindings m) []"
  shows "\<exists>b mac.
           find_client_in_ip_bindings (clients_cache m) client_name = Some b \<and>
           b \<in> set (ip_bindings m) \<and>
           fst (if is_ip_address mac_or_ip then find_mac_by_ip m mac_or_ip
                else (Some mac_or_ip, m)) = Some mac \<and>
           b\<lparr>mac_address := mac,
             btype := (if btype b = ''blocked'' then ''bypassed'' else btype b)\<rparr>
             \<in> set (ip_bindings m')"
proof -
  from update_client_mac_by_directory_record [OF assms(1)] obtain b mac where
    f: "find_client_in_ip_bindings (clients_cache m) client_name = Some b"
    and r: "fst (if is_ip_address mac_or_ip then find_mac_by_ip m mac_or_ip
                 else (Some mac_or_ip, m)) = Some mac"
    and o: "b \<in> set (ip_bindings m) \<longrightarrow>
              b\<lparr>mac_address := mac,
                btype := (if btype b = ''blocked'' then ''bypassed'' else btype b)\<rparr>
                \<in> set (ip_bindings m')"
    by blast
  from f obtain k where "(k, b) \<in> set (clients_cache m)"
    by (blast dest: find_client_mem)
  then have "(k, b) \<in> set (load_clients_loop (ip_bindings m) [])"
    by (simp only: assms(2))
  from load_clients_loop_entries [OF this] have "b \<in> set (ip_bindings m)" by simp
  with f r o show ?thesis by blast
qed

text \<open>
  C6.  \<open>update_client_mac\<close> takes the state of the record from the directory entry it found
  (\<open>existing_binding\<close>), and \<open>block_client\<close> returns without \<open>refresh_clients_cache\<close>.  So
  after a successful block of Ali the router holds Ali's record as \<open>blocked\<close> while the
  directory still says \<open>bypassed\<close>, and a MAC update for Ali then succeeds, replaces the MAC
  and leaves the record \<open>blocked\<close>: the record was Blocked before the call and is not set to
  Active.  The same through \<open>process_client\<close>: a row \<open>CUT\<close> and then a row \<open>UPD-MAC=Active\<close>
  for Ali write \<open>BLOCK\<close> and \<open>Active\<close> to the sheet, and the router keeps the record blocked.
\<close>

theorem update_mac_after_cut_stays_blocked:
  "fst (block_client (example_router [example_ali_1]) ''Ali'') \<and>
   ip_bindings (snd (block_client (example_router [example_ali_1]) ''Ali''))
     = [example_ali_1\<lparr>btype := ''blocked''\<rparr>] \<and>
   fst (update_client_mac (snd (block_client (example_router [example_ali_1]) ''Ali''))
          ''Ali'' ''11:22:33:44:55:66'') = (True, None) \<and>
   ip_bindings (snd (update_client_mac (snd (block_client (example_router [example_ali_1]) ''Ali''))
          ''Ali'' ''11:22:33:44:55:66''))
     = [example_ali_1\<lparr>mac_address := ''11:22:33:44:55:66'', btype := ''blocked''\<rparr>] \<and>
   (case process_client (2026, 1, 1) \<lparr>updates = [], sheet_failures = []\<rparr>
           (example_router [example_ali_1]) ''Ali'' ''CUT''
           \<lparr>bname = ''B1'', client_col = 0, status_col = 1, notes_col = 2\<rparr> 0
           [[''Ali'', ''CUT'', []], [''Ali'', ''UPD-MAC=Active'', ''11:22:33:44:55:66'']] of
      (sv1, m1) \<Rightarrow>
        (case process_client (2026, 1, 1) sv1 m1 ''Ali'' ''UPD-MAC=Active''
                \<lparr>bname = ''B1'', client_col = 0, status_col = 1, notes_col = 2\<rparr> 1
                [[''Ali'', ''CUT'', []], [''Ali'', ''UPD-MAC=Active'', ''11:22:33:44:55:66'']] of
           (sv2, m2) \<Rightarrow>
             ip_bindings m1 = [example_ali_1\<lparr>btype := ''blocked''\<rparr>] \<and>
             ip_bindings m2 =
               [example_ali_1\<lparr>mac_address := ''11:22:33:44:55:66'', btype := ''blocked''\<rparr>] \<and>
             updates sv2 = [(''Payment!D2'', ''BLOCK''), (''Payment!D3'', ''Active'')]))"
  by code_simp

text \<open>
  With the directory rebuilt after the block, the same update reinstates access.
\<close>

lemma update_mac_after_cut_and_refresh:
  "ip_bindings (snd (update_client_mac
          (refresh_clients_cache (snd (block_client (example_router [example_ali_1]) ''Ali'')))
          ''Ali'' ''11:22:33:44:55:66''))
     = [example_ali_1\<lparr>mac_address := ''11:22:33:44:55:66''\<rparr>]"
  by code_simp

section \<open>A MAC address that is already bound\<close>

lemma find_mac_listing:
  assumes "api_raises m1 = (False, m2)"
  shows "find_mac_in_ip_bindings m1 mac =
           (find (\<lambda>b. py_lower (mac_address b) = py_lower mac) (ip_bindings m1), m2)"
  using assms find_mac_in_ip_bindings_ok [of m1 mac] by simp

lemma add_new_client_holder:
  assumes nf: "find_client_in_ip_bindings (clients_cache m) n = None"
    and res: "(if is_ip_address x then find_mac_by_ip m x else (Some x, m)) = (Some mac, m1)"
    and listing: "api_raises m1 = (False, m2)"
    and holder: "find (\<lambda>b. py_lower (mac_address b) = py_lower mac) (ip_bindings m) = Some e"
  shows "add_new_client m n x =
           (if is_unauthorized_user (comment e)
            then (case delete_ip_binding_by_id m2 (bid e) of
                    (deleted, m3) \<Rightarrow>
                      if deleted
                      then (case add_ip_binding mac ''bypassed'' n (refresh_clients_cache m3) of
                              (raised, m5) \<Rightarrow>
                                if raised then ((False, Some ''Wrong-MAC''), m5)
                                else ((True, None), refresh_clients_cache m5))
                      else ((False, Some ''Delete-Failed''), m3))
            else ((False, Some ''Already-Exists''), m2))"
proof -
  have b: "ip_bindings m1 = ip_bindings m" using resolve_frame [OF res] by simp
  show ?thesis
  proof (cases "is_unauthorized_user (comment e)")
    case False
    then show ?thesis
      unfolding add_new_client_def
      by (simp only: nf res find_mac_listing [OF listing] b holder
          not_False_eq_True if_False if_True prod.case option.case sum.case simp_thms)
  next
    case True
    obtain deleted m3 where d: "delete_ip_binding_by_id m2 (bid e) = (deleted, m3)"
      by (cases "delete_ip_binding_by_id m2 (bid e)")
    show ?thesis
      unfolding add_new_client_def
      by (cases deleted)
         (simp_all only: nf res find_mac_listing [OF listing] b holder True d
          not_False_eq_True if_False if_True prod.case option.case sum.case simp_thms)
  qed
qed

lemma update_client_mac_holder:
  assumes f: "find_client_in_ip_bindings (clients_cache m) n = Some b"
    and res: "(if is_ip_address x then find_mac_by_ip m x else (Some x, m)) = (Some mac, m1)"
    and listing: "api_raises m1 = (False, m2)"
    and holder: "find (\<lambda>b. py_lower (mac_address b) = py_lower mac) (ip_bindings m) = Some e"
  shows "update_client_mac m n x =
           (if bid e \<noteq> bid b
            then if is_unauthorized_user (comment e)
                 then (case delete_ip_binding_by_id m2 (bid e) of
                         (deleted, m3) \<Rightarrow>
                           if deleted
                           then (case (if btype b = ''blocked''
                                       then set_ip_binding (bid b)
                                              (\<lambda>c. c\<lparr>mac_address := mac, btype := ''bypassed''\<rparr>)
                                              (refresh_clients_cache m3)
                                       else set_ip_binding (bid b) (\<lambda>c. c\<lparr>mac_address := mac\<rparr>)
                                              (refresh_clients_cache m3)) of
                                   (raised, m5) \<Rightarrow>
                                     if raised then ((False, Some ''Wrong-MAC''), m5)
                                     else ((True, None), refresh_clients_cache m5))
                           else ((False, Some ''Delete-Failed''), m3))
                 else ((False, Some ''Already-Exists''), m2)
            else (case (if btype b = ''blocked''
                        then set_ip_binding (bid b)
                               (\<lambda>c. c\<lparr>mac_address := mac, btype := ''bypassed''\<rparr>) m2
                        else set_ip_binding (bid b) (\<lambda>c. c\<lparr>mac_address := mac\<rparr>) m2) of
                    (raised, m5) \<Rightarrow>
                      if raised then ((False, Some ''Wrong-MAC''), m5)
                      else ((True, None), refresh_clients_cache m5)))"
proof -
  have bb: "ip_bindings m1 = ip_bindings m" using resolve_frame [OF res] by simp
  obtain deleted m3 where d: "delete_ip_binding_by_id m2 (bid e) = (deleted, m3)"
    by (cases "delete_ip_binding_by_id m2 (bid e)")
  show ?thesis
    unfolding update_client_mac_def Let_def
    by (cases "bid e = bid b"; cases "is_unauthorized_user (comment e)"; cases deleted)
       (simp_all only: f res find_mac_listing [OF listing] bb holder d
          not_False_eq_True if_False if_True prod.case option.case sum.case simp_thms)
qed

lemma holder_frame:
  assumes res: "(if is_ip_address x then find_mac_by_ip m x else (Some x, m)) = (Some mac, m1)"
    and listing: "api_raises m1 = (False, m2)"
  shows "ip_bindings m2 = ip_bindings m \<and> clients_cache m2 = clients_cache m"
    and "delete_ip_binding_by_id m2 i = (False, m3) \<Longrightarrow>
           ip_bindings m3 = ip_bindings m \<and> clients_cache m3 = clients_cache m"
    and "delete_ip_binding_by_id m2 i = (True, m3) \<Longrightarrow>
           ip_bindings (refresh_clients_cache m3) = filter (\<lambda>b. bid b \<noteq> i) (ip_bindings m) \<and>
           directory_rebuilt (refresh_clients_cache m3)"
proof -
  show 1: "ip_bindings m2 = ip_bindings m \<and> clients_cache m2 = clients_cache m"
    using resolve_frame [OF res] api_raises_frame [OF listing] by simp
  show "ip_bindings m3 = ip_bindings m \<and> clients_cache m3 = clients_cache m"
    if "delete_ip_binding_by_id m2 i = (False, m3)"
    using delete_ip_binding_by_id_effect [OF that] 1 by simp
  show "ip_bindings (refresh_clients_cache m3) = filter (\<lambda>b. bid b \<noteq> i) (ip_bindings m) \<and>
           directory_rebuilt (refresh_clients_cache m3)"
    if "delete_ip_binding_by_id m2 i = (True, m3)"
    using delete_ip_binding_by_id_effect [OF that] 1 refresh_rebuilt [of m3] by simp
qed

lemma add_new_client_placeholder:
  assumes nf: "find_client_in_ip_bindings (clients_cache m) n = None"
    and res: "(if is_ip_address x then find_mac_by_ip m x else (Some x, m)) = (Some mac, m1)"
    and ok: "failures m1 = []"
    and holder: "find (\<lambda>b. py_lower (mac_address b) = py_lower mac) (ip_bindings m) = Some e"
    and un: "is_unauthorized_user (comment e)"
  shows "fst (add_new_client m n x) = (True, None) \<and>
         ip_bindings (snd (add_new_client m n x)) =
           filter (\<lambda>b. bid b \<noteq> bid e) (ip_bindings m) @
             [\<lparr>bid = fresh_id (map bid (filter (\<lambda>b. bid b \<noteq> bid e) (ip_bindings m))),
               mac_address = mac, btype = ''bypassed'', comment = n\<rparr>] \<and>
         clients_cache (snd (add_new_client m n x)) =
           load_clients_loop (ip_bindings (snd (add_new_client m n x))) []"
proof -
  have b: "ip_bindings m1 = ip_bindings m" using resolve_frame [OF res] by simp
  have e: "bid e \<in> bid ` set (ip_bindings m)" using holder by (auto dest: find_SomeD)
  show ?thesis
    using nf res ok holder un b e
    by (simp add: add_new_client_def find_mac_in_ip_bindings_def get_ip_bindings_def
        api_raises_def delete_ip_binding_by_id_def remove_ip_binding_def
        refresh_clients_cache_def load_clients_def add_ip_binding_def)
qed

lemma update_client_mac_placeholder:
  assumes f: "find_client_in_ip_bindings (clients_cache m) n = Some b"
    and res: "(if is_ip_address x then find_mac_by_ip m x else (Some x, m)) = (Some mac, m1)"
    and ok: "failures m1 = []"
    and holder: "find (\<lambda>b. py_lower (mac_address b) = py_lower mac) (ip_bindings m) = Some e"
    and other: "bid e \<noteq> bid b"
    and un: "is_unauthorized_user (comment e)"
    and known: "bid b \<in> set (map bid (ip_bindings m))"
  shows "fst (update_client_mac m n x) = (True, None) \<and>
         ip_bindings (snd (update_client_mac m n x)) =
           map (\<lambda>c. if bid c = bid b
                     then (if btype b = ''blocked''
                           then c\<lparr>mac_address := mac, btype := ''bypassed''\<rparr>
                           else c\<lparr>mac_address := mac\<rparr>)
                     else c)
             (filter (\<lambda>c. bid c \<noteq> bid e) (ip_bindings m)) \<and>
         clients_cache (snd (update_client_mac m n x)) =
           load_clients_loop (ip_bindings (snd (update_client_mac m n x))) []"
proof -
  have bb: "ip_bindings m1 = ip_bindings m" using resolve_frame [OF res] by simp
  have e: "bid e \<in> bid ` set (ip_bindings m)" using holder by (auto dest: find_SomeD)
  have k: "bid b \<in> bid ` {c \<in> set (ip_bindings m). bid c \<noteq> bid e}"
    using known other by auto
  show ?thesis
    using f res ok holder un bb e k other
    by (simp add: update_client_mac_def find_mac_in_ip_bindings_def get_ip_bindings_def
        api_raises_def delete_ip_binding_by_id_def remove_ip_binding_def
        refresh_clients_cache_def load_clients_def set_ip_binding_def Let_def)
qed

text \<open>
  C1 (as amended).  Take a New or UpdateMac command that reaches the conflict check: the
  address given resolves to the MAC \<open>mac\<close> (leaving the router in state \<open>m1\<close>); and let the
  router answer the listing of bindings the check makes (leaving state \<open>m2\<close>).  Let \<open>e\<close> be
  the first binding of the router, in list order, whose MAC equals \<open>mac\<close> up to letter case.
  For New the client name is not in the directory; for UpdateMac it resolves to the record
  \<open>b\<close>, and \<open>e\<close> is a conflict only when its id differs from that of \<open>b\<close>: otherwise the
  update goes ahead on \<open>m2\<close>.
  \<^item> If the comment of \<open>e\<close> does not start with the marker, the operation fails with
    \<open>Already-Exists\<close> in state \<open>m2\<close>, whose bindings and directory are those of the start;
    and whenever either operation returns \<open>Already-Exists\<close>, bindings and directory are what
    they were.
  \<^item> If the comment of \<open>e\<close> starts with the marker, the engine asks the router to delete
    \<open>e\<close>.  If that fails, the operation fails with \<open>Delete-Failed\<close>; bindings and directory
    are what they were.  If it succeeds, \<open>e\<close> is gone, the directory is rebuilt, and the
    operation goes on to the create, respectively the update, in that state: it succeeds if the
    router accepts that call and fails with \<open>Wrong-MAC\<close> if not.
  \<^item> In particular, when the router answers every call, a marked \<open>e\<close> is removed, the
    operation succeeds (the new binding is appended, respectively the client's record gets the
    MAC), and the directory is rebuilt from the resulting bindings.
\<close>

theorem mac_conflict_policy:
  assumes res: "(if is_ip_address x then find_mac_by_ip m x else (Some x, m)) = (Some mac, m1)"
    and listing: "api_raises m1 = (False, m2)"
    and holder: "find (\<lambda>b. py_lower (mac_address b) = py_lower mac) (ip_bindings m) = Some e"
  shows
    "(find_client_in_ip_bindings (clients_cache m) n = None \<longrightarrow>
        add_new_client m n x =
          (if is_unauthorized_user (comment e)
           then (case delete_ip_binding_by_id m2 (bid e) of
                   (deleted, m3) \<Rightarrow>
                     if deleted
                     then (case add_ip_binding mac ''bypassed'' n (refresh_clients_cache m3) of
                             (raised, m5) \<Rightarrow>
                               if raised then ((False, Some ''Wrong-MAC''), m5)
                               else ((True, None), refresh_clients_cache m5))
                     else ((False, Some ''Delete-Failed''), m3))
           else ((False, Some ''Already-Exists''), m2))) \<and>
     (find_client_in_ip_bindings (clients_cache m) n = Some b \<longrightarrow>
        update_client_mac m n x =
          (if bid e \<noteq> bid b
           then if is_unauthorized_user (comment e)
                then (case delete_ip_binding_by_id m2 (bid e) of
                        (deleted, m3) \<Rightarrow>
                          if deleted
                          then (case (if btype b = ''blocked''
                                      then set_ip_binding (bid b)
                                             (\<lambda>c. c\<lparr>mac_address := mac, btype := ''bypassed''\<rparr>)
                                             (refresh_clients_cache m3)
                                      else set_ip_binding (bid b) (\<lambda>c. c\<lparr>mac_address := mac\<rparr>)
                                             (refresh_clients_cache m3)) of
                                  (raised, m5) \<Rightarrow>
                                    if raised then ((False, Some ''Wrong-MAC''), m5)
                                    else ((True, None), refresh_clients_cache m5))
                          else ((False, Some ''Delete-Failed''), m3))
                else ((False, Some ''Already-Exists''), m2)
           else (case (if btype b = ''blocked''
                       then set_ip_binding (bid b)
                              (\<lambda>c. c\<lparr>mac_address := mac, btype := ''bypassed''\<rparr>) m2
                       else set_ip_binding (bid b) (\<lambda>c. c\<lparr>mac_address := mac\<rparr>) m2) of
                   (raised, m5) \<Rightarrow>
                     if raised then ((False, Some ''Wrong-MAC''), m5)
                     else ((True, None), refresh_clients_cache m5)))) \<and>
     ip_bindings m2 = ip_bindings m \<and> clients_cache m2 = clients_cache m \<and>
     (\<forall>m3. delete_ip_binding_by_id m2 (bid e) = (False, m3) \<longrightarrow>
        ip_bindings m3 = ip_bindings m \<and> clients_cache m3 = clients_cache m) \<and>
     (\<forall>m3. delete_ip_binding_by_id m2 (bid e) = (True, m3) \<longrightarrow>
        ip_bindings (refresh_clients_cache m3) = filter (\<lambda>c. bid c \<noteq> bid e) (ip_bindings m) \<and>
        directory_rebuilt (refresh_clients_cache m3)) \<and>
     (find_client_in_ip_bindings (clients_cache m) n = None \<and> failures m1 = [] \<and>
      is_unauthorized_user (comment e) \<longrightarrow>
        fst (add_new_client m n x) = (True, None) \<and>
        ip_bindings (snd (add_new_client m n x)) =
          filter (\<lambda>b. bid b \<noteq> bid e) (ip_bindings m) @
            [\<lparr>bid = fresh_id (map bid (filter (\<lambda>b. bid b \<noteq> bid e) (ip_bindings m))),
              mac_address = mac, btype = ''bypassed'', comment = n\<rparr>] \<and>
        clients_cache (snd (add_new_client m n x)) =
          load_clients_loop (ip_bindings (snd (add_new_client m n x))) []) \<and>
     (find_client_in_ip_bindings (clients_cache m) n = Some b \<and> bid e \<noteq> bid b \<and>
      failures m1 = [] \<and> is_unauthorized_user (comment e) \<and>
      bid b \<in> set (map bid (ip_bindings m)) \<longrightarrow>
        fst (update_client_mac m n x) = (True, None) \<and>
        ip_bindings (snd (update_client_mac m n x)) =
          map (\<lambda>c. if bid c = bid b
                    then (if btype b = ''blocked''
                          then c\<lparr>mac_address := mac, btype := ''bypassed''\<rparr>
                          else c\<lparr>mac_address := mac\<rparr>)
                    else c)
            (filter (\<lambda>c. bid c \<noteq> bid e) (ip_bindings m)) \<and>
        clients_cache (snd (update_client_mac m n x)) =
          load_clients_loop (ip_bindings (snd (update_client_mac m n x))) []) \<and>
     (\<forall>m'. add_new_client m n x = ((False, Some ''Already-Exists''), m') \<longrightarrow>
        ip_bindings m' = ip_bindings m \<and> clients_cache m' = clients_cache m) \<and>
     (\<forall>m'. update_client_mac m n x = ((False, Some ''Already-Exists''), m') \<longrightarrow>
        ip_bindings m' = ip_bindings m \<and> clients_cache m' = clients_cache m)"
proof -
  note 1 = impI [OF add_new_client_holder [OF _ res listing holder, of n]]
  note 2 = impI [OF update_client_mac_holder [OF _ res listing holder, of n b]]
  note 3 = holder_frame(1) [OF res listing]
  have 4: "\<forall>m3. delete_ip_binding_by_id m2 (bid e) = (False, m3) \<longrightarrow>
        ip_bindings m3 = ip_bindings m \<and> clients_cache m3 = clients_cache m"
    using holder_frame(2) [OF res listing] by blast
  have 5: "\<forall>m3. delete_ip_binding_by_id m2 (bid e) = (True, m3) \<longrightarrow>
        ip_bindings (refresh_clients_cache m3) = filter (\<lambda>c. bid c \<noteq> bid e) (ip_bindings m) \<and>
        directory_rebuilt (refresh_clients_cache m3)"
    using holder_frame(3) [OF res listing] by blast
  have 6: "find_client_in_ip_bindings (clients_cache m) n = None \<and> failures m1 = [] \<and>
      is_unauthorized_user (comment e) \<longrightarrow>
        fst (add_new_client m n x) = (True, None) \<and>
        ip_bindings (snd (add_new_client m n x)) =
          filter (\<lambda>b. bid b \<noteq> bid e) (ip_bindings m) @
            [\<lparr>bid = fresh_id (map bid (filter (\<lambda>b. bid b \<noteq> bid e) (ip_bindings m))),
              mac_address = mac, btype = ''bypassed'', comment = n\<rparr>] \<and>
        clients_cache (snd (add_new_client m n x)) =
          load_clients_loop (ip_bindings (snd (add_new_client m n x))) []"
    using add_new_client_placeholder [OF _ res _ holder] by blast
  have 7: "find_client_in_ip_bindings (clients_cache m) n = Some b \<and> bid e \<noteq> bid b \<and>
      failures m1 = [] \<and> is_unauthorized_user (comment e) \<and>
      bid b \<in> set (map bid (ip_bindings m)) \<longrightarrow>
        fst (update_client_mac m n x) = (True, None) \<and>
        ip_bindings (snd (update_client_mac m n x)) =
          map (\<lambda>c. if bid c = bid b
                    then (if btype b = ''blocked''
                          then c\<lparr>mac_address := mac, btype := ''bypassed''\<rparr>
                          else c\<lparr>mac_address := mac\<rparr>)
                    else c)
            (filter (\<lambda>c. bid c \<noteq> bid e) (ip_bindings m)) \<and>
        clients_cache (snd (update_client_mac m n x)) =
          load_clients_loop (ip_bindings (snd (update_client_mac m n x))) []"
    using update_client_mac_placeholder [OF _ res _ holder] by blast
  have 8: "\<forall>m'. add_new_client m n x = ((False, Some ''Already-Exists''), m') \<longrightarrow>
        ip_bindings m' = ip_bindings m \<and> clients_cache m' = clients_cache m"
    using add_new_client_already_exists by blast
  have 9: "\<forall>m'. update_client_mac m n x = ((False, Some ''Already-Exists''), m') \<longrightarrow>
        ip_bindings m' = ip_bindings m \<and> clients_cache m' = clients_cache m"
    using update_client_mac_already_exists by blast
  show ?thesis
    by (intro conjI 1 2 conjunct1 [OF 3] conjunct2 [OF 3] 4 5 6 7 8 9)
qed

theorem mac_conflict_policy_witness:
  "api_raises (example_router [example_ali_1, example_placeholder]) =
     (False, example_router [example_ali_1, example_placeholder]) \<and>
   fst (add_new_client (example_router [example_ali_1, example_placeholder]) ''Omar''
          ''aa:bb:cc:dd:ee:09'') = (True, None) \<and>
   ip_bindings (snd (add_new_client (example_router [example_ali_1, example_placeholder]) ''Omar''
          ''aa:bb:cc:dd:ee:09'')) =
     [example_ali_1,
      \<lparr>bid = 2, mac_address = ''aa:bb:cc:dd:ee:09'', btype = ''bypassed'', comment = ''Omar''\<rparr>] \<and>
   add_new_client (example_router [example_ali_1, example_placeholder]) ''Omar''
          ''aa:bb:cc:dd:ee:01'' =
     ((False, Some ''Already-Exists''), example_router [example_ali_1, example_placeholder])"
proof -
  let ?m = "example_router [example_ali_1, example_placeholder]"
  have nf: "find_client_in_ip_bindings (clients_cache ?m) ''Omar'' = None"
    by code_simp
  have res9: "(if is_ip_address ''aa:bb:cc:dd:ee:09'' then find_mac_by_ip ?m ''aa:bb:cc:dd:ee:09''
               else (Some ''aa:bb:cc:dd:ee:09'', ?m)) = (Some ''aa:bb:cc:dd:ee:09'', ?m)"
    by code_simp
  have h9: "find (\<lambda>b. py_lower (mac_address b) = py_lower ''aa:bb:cc:dd:ee:09'') (ip_bindings ?m)
              = Some example_placeholder"
    by code_simp
  have un: "is_unauthorized_user (comment example_placeholder)"
    by code_simp
  have res1: "(if is_ip_address ''aa:bb:cc:dd:ee:01'' then find_mac_by_ip ?m ''aa:bb:cc:dd:ee:01''
               else (Some ''aa:bb:cc:dd:ee:01'', ?m)) = (Some ''aa:bb:cc:dd:ee:01'', ?m)"
    by code_simp
  have h1: "find (\<lambda>b. py_lower (mac_address b) = py_lower ''aa:bb:cc:dd:ee:01'') (ip_bindings ?m)
              = Some example_ali_1"
    by code_simp
  have au: "\<not> is_unauthorized_user (comment example_ali_1)"
    by code_simp
  have ok: "failures ?m = []" by simp
  have li: "api_raises ?m = (False, ?m)" by (simp add: api_raises_def)
  have a: "fst (add_new_client ?m ''Omar'' ''aa:bb:cc:dd:ee:09'') = (True, None) \<and>
        ip_bindings (snd (add_new_client ?m ''Omar'' ''aa:bb:cc:dd:ee:09'')) =
          filter (\<lambda>b. bid b \<noteq> bid example_placeholder) (ip_bindings ?m) @
            [\<lparr>bid = fresh_id (map bid (filter (\<lambda>b. bid b \<noteq> bid example_placeholder)
                                         (ip_bindings ?m))),
              mac_address = ''aa:bb:cc:dd:ee:09'', btype = ''bypassed'', comment = ''Omar''\<rparr>]"
    using mac_conflict_policy [OF res9 li h9, of "''Omar''"] nf ok un by blast
  have "add_new_client ?m ''Omar'' ''aa:bb:cc:dd:ee:01'' =
          (if is_unauthorized_user (comment example_ali_1)
           then (case delete_ip_binding_by_id ?m (bid example_ali_1) of
                   (deleted, m3) \<Rightarrow>
                     if deleted
                     then (case add_ip_binding ''aa:bb:cc:dd:ee:01'' ''bypassed'' ''Omar''
                                  (refresh_clients_cache m3) of
                             (raised, m5) \<Rightarrow>
                               if raised then ((False, Some ''Wrong-MAC''), m5)
                               else ((True, None), refresh_clients_cache m5))
                     else ((False, Some ''Delete-Failed''), m3))
           else ((False, Some ''Already-Exists''), ?m))"
    using mac_conflict_policy [OF res1 li h1, of "''Omar''"] nf by blast
  then have b: "add_new_client ?m ''Omar'' ''aa:bb:cc:dd:ee:01'' =
             ((False, Some ''Already-Exists''), ?m)"
    by (simp only: au if_False)
  have f: "filter (\<lambda>b. bid b \<noteq> bid example_placeholder) (ip_bindings ?m) @
            [\<lparr>bid = fresh_id (map bid (filter (\<lambda>b. bid b \<noteq> bid example_placeholder)
                                         (ip_bindings ?m))),
              mac_address = ''aa:bb:cc:dd:ee:09'', btype = ''bypassed'', comment = ''Omar''\<rparr>]
           = [example_ali_1,
              \<lparr>bid = 2, mac_address = ''aa:bb:cc:dd:ee:09'', btype = ''bypassed'',
                comment = ''Omar''\<rparr>]"
    by (simp add: fresh_id_def)
  from a b li show ?thesis by (simp only: f simp_thms)
qed

text \<open>
  Two runs on the example router.  The router answers the listing and refuses to
  delete the placeholder: the operation fails with \<open>Delete-Failed\<close>, the placeholder stays.
  The router does not answer the listing: \<open>find_mac_in_ip_bindings\<close> returns \<open>None\<close>, no
  conflict is seen, and Omar is created with the MAC that Ali's record holds.
\<close>

theorem mac_conflict_delete_failed_counterexample:
  "is_unauthorized_user (comment example_placeholder) \<and>
   fst (add_new_client
          ((example_router [example_ali_1, example_placeholder])\<lparr>failures := [False, True]\<rparr>)
          ''Omar'' ''AA:BB:CC:DD:EE:09'') = (False, Some ''Delete-Failed'') \<and>
   ip_bindings (snd (add_new_client
          ((example_router [example_ali_1, example_placeholder])\<lparr>failures := [False, True]\<rparr>)
          ''Omar'' ''AA:BB:CC:DD:EE:09'')) = [example_ali_1, example_placeholder] \<and>
   \<not> is_unauthorized_user (comment example_ali_1) \<and>
   fst (add_new_client
          ((example_router [example_ali_1, example_placeholder])\<lparr>failures := [True]\<rparr>)
          ''Omar'' ''AA:BB:CC:DD:EE:01'') = (True, None) \<and>
   map mac_address (ip_bindings (snd (add_new_client
          ((example_router [example_ali_1, example_placeholder])\<lparr>failures := [True]\<rparr>)
          ''Omar'' ''AA:BB:CC:DD:EE:01''))) =
     [''AA:BB:CC:DD:EE:01'', ''AA:BB:CC:DD:EE:09'', ''AA:BB:CC:DD:EE:01'']"
  by code_simp

section \<open>Refreshing the directory after a mutation\<close>

lemma update_client_name_refresh:
  "(fst (update_client_name m n x) = (True, None) \<longrightarrow>
      directory_rebuilt (snd (update_client_name m n x))) \<and>
   (\<not> fst (fst (update_client_name m n x)) \<longrightarrow>
      clients_cache (snd (update_client_name m n x)) = clients_cache m \<and>
      ip_bindings (snd (update_client_name m n x)) = ip_bindings m)"
proof (cases "find_client_in_ip_bindings (clients_cache m) n")
  case None
  then show ?thesis by (simp add: update_client_name_def)
next
  case (Some e)
  obtain r m1 where s: "set_ip_binding (bid e)
      (\<lambda>b. b\<lparr>comment := name_comment (comment e) x\<rparr>) m = (r, m1)"
    by (cases "set_ip_binding (bid e) (\<lambda>b. b\<lparr>comment := name_comment (comment e) x\<rparr>) m")
  from set_ip_binding_effect [OF s] Some s show ?thesis
    by (auto simp: update_client_name_def Let_def refresh_rebuilt)
qed

lemma update_client_phone_refresh:
  "(fst (update_client_phone m n x) = (True, None) \<longrightarrow>
      directory_rebuilt (snd (update_client_phone m n x))) \<and>
   (\<not> fst (fst (update_client_phone m n x)) \<longrightarrow>
      clients_cache (snd (update_client_phone m n x)) = clients_cache m \<and>
      ip_bindings (snd (update_client_phone m n x)) = ip_bindings m)"
proof (cases "find_client_in_ip_bindings (clients_cache m) n")
  case None
  then show ?thesis by (simp add: update_client_phone_def)
next
  case (Some e)
  obtain r m1 where s: "set_ip_binding (bid e)
      (\<lambda>b. b\<lparr>comment := phone_comment (comment e) x\<rparr>) m = (r, m1)"
    by (cases "set_ip_binding (bid e) (\<lambda>b. b\<lparr>comment := phone_comment (comment e) x\<rparr>) m")
  from set_ip_binding_effect [OF s] Some s show ?thesis
    by (auto simp: update_client_phone_def Let_def refresh_rebuilt)
qed

lemma add_new_client_refresh:
  "(fst (add_new_client m n x) = (True, None) \<longrightarrow>
      directory_rebuilt (snd (add_new_client m n x))) \<and>
   (\<not> fst (fst (add_new_client m n x)) \<longrightarrow>
      (clients_cache (snd (add_new_client m n x)) = clients_cache m \<and>
       ip_bindings (snd (add_new_client m n x)) = ip_bindings m) \<or>
      placeholder_removed m (snd (add_new_client m n x)))"
proof (cases "find_client_in_ip_bindings (clients_cache m) n \<noteq> None")
  case True
  then show ?thesis by (simp add: add_new_client_def)
next
  case False
  obtain mo m1 where res: "(if is_ip_address x then find_mac_by_ip m x else (Some x, m)) = (mo, m1)"
    by (cases "if is_ip_address x then find_mac_by_ip m x else (Some x, m)")
  note f1 = resolve_frame [OF res]
  show ?thesis
  proof (cases mo)
    case None
    with False res f1 show ?thesis by (simp add: add_new_client_def)
  next
    case mac: (Some mac)
    obtain ex m2 where fm: "find_mac_in_ip_bindings m1 mac = (ex, m2)"
      by (cases "find_mac_in_ip_bindings m1 mac")
    note f2c = find_mac_in_ip_bindings_frame [OF fm]
    have f2: "ip_bindings m2 = ip_bindings m1 \<and> clients_cache m2 = clients_cache m1"
      using f2c by simp
    have after_add: "(fst (case add_ip_binding mac ''bypassed'' n m4 of (raised, m5) \<Rightarrow>
                       if raised then ((False, Some ''Wrong-MAC''), m5)
                       else ((True, None), refresh_clients_cache m5)) = (True, None) \<longrightarrow>
           directory_rebuilt (snd (case add_ip_binding mac ''bypassed'' n m4 of (raised, m5) \<Rightarrow>
                       if raised then ((False, Some ''Wrong-MAC''), m5)
                       else ((True, None), refresh_clients_cache m5)))) \<and>
         (\<not> fst (fst (case add_ip_binding mac ''bypassed'' n m4 of (raised, m5) \<Rightarrow>
                       if raised then ((False, Some ''Wrong-MAC''), m5)
                       else ((True, None), refresh_clients_cache m5))) \<longrightarrow>
           clients_cache (snd (case add_ip_binding mac ''bypassed'' n m4 of (raised, m5) \<Rightarrow>
                       if raised then ((False, Some ''Wrong-MAC''), m5)
                       else ((True, None), refresh_clients_cache m5))) = clients_cache m4 \<and>
           ip_bindings (snd (case add_ip_binding mac ''bypassed'' n m4 of (raised, m5) \<Rightarrow>
                       if raised then ((False, Some ''Wrong-MAC''), m5)
                       else ((True, None), refresh_clients_cache m5))) = ip_bindings m4)" for m4
    proof -
      obtain r m5 where a: "add_ip_binding mac ''bypassed'' n m4 = (r, m5)"
        by (cases "add_ip_binding mac ''bypassed'' n m4")
      from add_ip_binding_effect [OF a] a show ?thesis
        by (auto simp: refresh_rebuilt)
    qed
    show ?thesis
    proof (cases ex)
      case None
      with False res mac fm after_add [of m2] f1 f2 show ?thesis
        by (simp add: add_new_client_def)
    next
      case (Some e)
      with f2c have "find (\<lambda>b. py_lower (mac_address b) = py_lower mac) (ip_bindings m1) = Some e"
        by auto
      then have emem: "e \<in> set (ip_bindings m)" using f1 by (auto dest: find_SomeD)
      show ?thesis
      proof (cases "is_unauthorized_user (comment e)")
        case no: False
        with False res mac fm Some f1 f2 show ?thesis
          by (simp add: add_new_client_def)
      next
        case True
        obtain deleted m3 where del: "delete_ip_binding_by_id m2 (bid e) = (deleted, m3)"
          by (cases "delete_ip_binding_by_id m2 (bid e)")
        note f3 = delete_ip_binding_by_id_effect [OF del]
        show ?thesis
        proof (cases deleted)
          case False
          with \<open>\<not> find_client_in_ip_bindings (clients_cache m) n \<noteq> None\<close> res mac fm Some True del
            f1 f2 f3 show ?thesis
            by (simp add: add_new_client_def)
        next
          case d: True
          let ?m4 = "refresh_clients_cache m3"
          have b4: "ip_bindings ?m4 = filter (\<lambda>b. bid b \<noteq> bid e) (ip_bindings m)"
            using f1 f2 f3 d by simp
          have r4: "directory_rebuilt ?m4" by (rule refresh_rebuilt)
          have eq: "add_new_client m n x =
                (case add_ip_binding mac ''bypassed'' n ?m4 of (raised, m5) \<Rightarrow>
                       if raised then ((False, Some ''Wrong-MAC''), m5)
                       else ((True, None), refresh_clients_cache m5))"
            using False res mac fm Some True del d by (simp add: add_new_client_def)
          have "\<not> fst (fst (add_new_client m n x)) \<longrightarrow>
                  placeholder_removed m (snd (add_new_client m n x))"
            unfolding eq placeholder_removed_def
            using after_add [of ?m4] b4 r4 emem True
            by (auto simp: directory_rebuilt_def)
          with after_add [of ?m4] show ?thesis unfolding eq by blast
        qed
      qed
    qed
  qed
qed


lemma update_client_mac_refresh:
  "(fst (update_client_mac m n x) = (True, None) \<longrightarrow>
      directory_rebuilt (snd (update_client_mac m n x))) \<and>
   (\<not> fst (fst (update_client_mac m n x)) \<longrightarrow>
      (clients_cache (snd (update_client_mac m n x)) = clients_cache m \<and>
       ip_bindings (snd (update_client_mac m n x)) = ip_bindings m) \<or>
      placeholder_removed m (snd (update_client_mac m n x)))"
proof (cases "find_client_in_ip_bindings (clients_cache m) n")
  case None
  then show ?thesis by (simp add: update_client_mac_def)
next
  case (Some b)
  obtain mo m1 where res: "(if is_ip_address x then find_mac_by_ip m x else (Some x, m)) = (mo, m1)"
    by (cases "if is_ip_address x then find_mac_by_ip m x else (Some x, m)")
  note f1 = resolve_frame [OF res]
  show ?thesis
  proof (cases mo)
    case None
    with Some res f1 show ?thesis by (simp add: update_client_mac_def)
  next
    case mac: (Some mac)
    obtain ex m2 where fm: "find_mac_in_ip_bindings m1 mac = (ex, m2)"
      by (cases "find_mac_in_ip_bindings m1 mac")
    note f2c = find_mac_in_ip_bindings_frame [OF fm]
    have f2: "ip_bindings m2 = ip_bindings m1 \<and> clients_cache m2 = clients_cache m1"
      using f2c by simp
    let ?fin = "\<lambda>m4. (let is_blocked = (btype b = ''blocked'') in
                       case (if is_blocked
                             then set_ip_binding (bid b)
                                    (\<lambda>b. b\<lparr>mac_address := mac, btype := ''bypassed''\<rparr>) m4
                             else set_ip_binding (bid b)
                                    (\<lambda>b. b\<lparr>mac_address := mac\<rparr>) m4) of
                         (raised, m5) \<Rightarrow>
                           if raised then ((False, Some ''Wrong-MAC''), m5)
                           else ((True, None), refresh_clients_cache m5))"
    have after_set: "(fst (?fin m4) = (True, None) \<longrightarrow> directory_rebuilt (snd (?fin m4))) \<and>
         (\<not> fst (fst (?fin m4)) \<longrightarrow>
           clients_cache (snd (?fin m4)) = clients_cache m4 \<and>
           ip_bindings (snd (?fin m4)) = ip_bindings m4)" for m4
    proof (cases "btype b = ''blocked''")
      case True
      obtain r m5 where a: "set_ip_binding (bid b)
          (\<lambda>b. b\<lparr>mac_address := mac, btype := ''bypassed''\<rparr>) m4 = (r, m5)"
        by (cases "set_ip_binding (bid b) (\<lambda>b. b\<lparr>mac_address := mac, btype := ''bypassed''\<rparr>) m4")
      from set_ip_binding_effect [OF a] a True show ?thesis
        by (auto simp: refresh_rebuilt)
    next
      case False
      obtain r m5 where a: "set_ip_binding (bid b) (\<lambda>b. b\<lparr>mac_address := mac\<rparr>) m4 = (r, m5)"
        by (cases "set_ip_binding (bid b) (\<lambda>b. b\<lparr>mac_address := mac\<rparr>) m4")
      from set_ip_binding_effect [OF a] a False show ?thesis
        by (auto simp: refresh_rebuilt)
    qed
    show ?thesis
    proof (cases "\<exists>e. ex = Some e \<and> bid e \<noteq> bid b")
      case False
      then have eq: "update_client_mac m n x = ?fin m2"
        using Some res mac fm by (cases ex) (auto simp: update_client_mac_def)
      from after_set [of m2] f1 f2 show ?thesis unfolding eq by simp
    next
      case True
      then obtain e where e: "ex = Some e" "bid e \<noteq> bid b" by blast
      with f2c have "find (\<lambda>b. py_lower (mac_address b) = py_lower mac) (ip_bindings m1) = Some e"
        by auto
      then have emem: "e \<in> set (ip_bindings m)" using f1 by (auto dest: find_SomeD)
      show ?thesis
      proof (cases "is_unauthorized_user (comment e)")
        case no: False
        with Some res mac fm e f1 f2 show ?thesis
          by (simp add: update_client_mac_def)
      next
        case un: True
        obtain deleted m3 where del: "delete_ip_binding_by_id m2 (bid e) = (deleted, m3)"
          by (cases "delete_ip_binding_by_id m2 (bid e)")
        note f3 = delete_ip_binding_by_id_effect [OF del]
        show ?thesis
        proof (cases deleted)
          case False
          with Some res mac fm e un del f1 f2 f3 show ?thesis
            by (simp add: update_client_mac_def)
        next
          case d: True
          let ?m4 = "refresh_clients_cache m3"
          have b4: "ip_bindings ?m4 = filter (\<lambda>b. bid b \<noteq> bid e) (ip_bindings m)"
            using f1 f2 f3 d by simp
          have r4: "directory_rebuilt ?m4" by (rule refresh_rebuilt)
          have eq: "update_client_mac m n x = ?fin ?m4"
            using Some res mac fm e un del d by (simp add: update_client_mac_def)
          have "\<not> fst (fst (update_client_mac m n x)) \<longrightarrow>
                  placeholder_removed m (snd (update_client_mac m n x))"
            unfolding eq placeholder_removed_def
            using after_set [of ?m4] b4 r4 emem un
            by (auto simp: directory_rebuilt_def)
          with after_set [of ?m4] show ?thesis unfolding eq by blast
        qed
      qed
    qed
  qed
qed

lemma api_raises_suffix: "api_raises m = (r, m') \<Longrightarrow> suffix (failures m') (failures m)"
  by (auto simp: api_raises_def suffix_def split: list.splits)

lemma get_dhcp_leases_suffix:
  "get_dhcp_leases m = (ls, m') \<Longrightarrow> suffix (failures m') (failures m)"
  by (auto simp: get_dhcp_leases_def split: prod.splits if_splits dest: api_raises_suffix)

lemma find_mac_by_ip_suffix:
  assumes "find_mac_by_ip m ip = (r, m')"
  shows "suffix (failures m') (failures m)"
proof -
  obtain ls m1 where g: "get_dhcp_leases m = (ls, m1)" by (cases "get_dhcp_leases m")
  obtain r2 m2 where a: "api_raises m1 = (r2, m2)" by (cases "api_raises m1")
  from assms g a have "m' = m1 \<or> m' = m2"
    by (auto simp: find_mac_by_ip_def split: option.splits if_splits)
  with get_dhcp_leases_suffix [OF g] api_raises_suffix [OF a] show ?thesis
    by (auto intro: suffix_order.trans)
qed

lemma resolve_suffix:
  assumes "(if is_ip_address x then find_mac_by_ip m x else (Some x, m)) = (r, m1)"
  shows "suffix (failures m1) (failures m)"
  using assms find_mac_by_ip_suffix [of m x r m1] by (auto split: if_splits)

lemma find_mac_in_ip_bindings_suffix:
  "find_mac_in_ip_bindings m mac = (r, m') \<Longrightarrow> suffix (failures m') (failures m)"
  by (auto simp: find_mac_in_ip_bindings_def get_ip_bindings_def
      split: prod.splits if_splits dest: api_raises_suffix)

lemma delete_ip_binding_by_id_suffix:
  "delete_ip_binding_by_id m i = (d, m') \<Longrightarrow> suffix (failures m') (failures m)"
  by (auto simp: delete_ip_binding_by_id_def remove_ip_binding_def
      split: prod.splits if_splits dest: api_raises_suffix)

lemma add_ip_binding_suffix:
  "add_ip_binding mac ty cmt m = (r, m') \<Longrightarrow> suffix (failures m') (failures m)"
  by (auto simp: add_ip_binding_def split: prod.splits if_splits dest: api_raises_suffix)

lemma set_ip_binding_suffix:
  "set_ip_binding i f m = (r, m') \<Longrightarrow> suffix (failures m') (failures m)"
  by (auto simp: set_ip_binding_def split: prod.splits if_splits dest: api_raises_suffix)

lemma refresh_suffix: "suffix (failures (refresh_clients_cache m)) (failures m)"
  by (auto simp: refresh_clients_cache_def load_clients_def get_ip_bindings_def
      split: prod.splits if_splits option.splits dest: api_raises_suffix)

lemma refresh_answered:
  "failures m = [] \<Longrightarrow>
   clients_cache (refresh_clients_cache m) = load_clients_loop (ip_bindings m) []"
  by (simp add: refresh_clients_cache_def load_clients_def get_ip_bindings_def api_raises_def)

lemma suffix_Nil_failures: "suffix (failures m') (failures m) \<Longrightarrow> failures m = [] \<Longrightarrow> failures m' = []"
  by simp

lemma update_client_name_final_refresh:
  assumes "fst (update_client_name m n x) = (True, None)"
  shows "\<exists>m5. snd (update_client_name m n x) = refresh_clients_cache m5 \<and>
              suffix (failures m5) (failures m)"
proof (cases "find_client_in_ip_bindings (clients_cache m) n")
  case None
  with assms show ?thesis by (simp add: update_client_name_def)
next
  case (Some e)
  obtain r m1 where s: "set_ip_binding (bid e)
      (\<lambda>b. b\<lparr>comment := name_comment (comment e) x\<rparr>) m = (r, m1)"
    by (cases "set_ip_binding (bid e) (\<lambda>b. b\<lparr>comment := name_comment (comment e) x\<rparr>) m")
  from set_ip_binding_suffix [OF s] Some s assms show ?thesis
    by (auto simp: update_client_name_def Let_def split: if_splits)
qed

lemma update_client_phone_final_refresh:
  assumes "fst (update_client_phone m n x) = (True, None)"
  shows "\<exists>m5. snd (update_client_phone m n x) = refresh_clients_cache m5 \<and>
              suffix (failures m5) (failures m)"
proof (cases "find_client_in_ip_bindings (clients_cache m) n")
  case None
  with assms show ?thesis by (simp add: update_client_phone_def)
next
  case (Some e)
  obtain r m1 where s: "set_ip_binding (bid e)
      (\<lambda>b. b\<lparr>comment := phone_comment (comment e) x\<rparr>) m = (r, m1)"
    by (cases "set_ip_binding (bid e) (\<lambda>b. b\<lparr>comment := phone_comment (comment e) x\<rparr>) m")
  from set_ip_binding_suffix [OF s] Some s assms show ?thesis
    by (auto simp: update_client_phone_def Let_def split: if_splits)
qed

lemma add_new_client_final_refresh:
  assumes "fst (add_new_client m n x) = (True, None)"
  shows "\<exists>m5. snd (add_new_client m n x) = refresh_clients_cache m5 \<and>
              suffix (failures m5) (failures m)"
proof (cases "find_client_in_ip_bindings (clients_cache m) n \<noteq> None")
  case True
  with assms show ?thesis by (simp add: add_new_client_def)
next
  case False
  obtain mo m1 where res: "(if is_ip_address x then find_mac_by_ip m x else (Some x, m)) = (mo, m1)"
    by (cases "if is_ip_address x then find_mac_by_ip m x else (Some x, m)")
  note s1 = resolve_suffix [OF res]
  show ?thesis
  proof (cases mo)
    case None
    with False res assms show ?thesis by (simp add: add_new_client_def)
  next
    case mac: (Some mac)
    obtain ex m2 where fm: "find_mac_in_ip_bindings m1 mac = (ex, m2)"
      by (cases "find_mac_in_ip_bindings m1 mac")
    have s2: "suffix (failures m2) (failures m)"
      using find_mac_in_ip_bindings_suffix [OF fm] s1 by (rule suffix_order.trans)
    let ?fin = "\<lambda>m4. (case add_ip_binding mac ''bypassed'' n m4 of (raised, m5) \<Rightarrow>
                       if raised then ((False, Some ''Wrong-MAC''), m5)
                       else ((True, None), refresh_clients_cache m5))"
    have after_add: "\<exists>m5. snd (?fin m4) = refresh_clients_cache m5 \<and>
                          suffix (failures m5) (failures m4)"
      if "fst (?fin m4) = (True, None)" for m4
    proof -
      obtain r m5 where a: "add_ip_binding mac ''bypassed'' n m4 = (r, m5)"
        by (cases "add_ip_binding mac ''bypassed'' n m4")
      from add_ip_binding_suffix [OF a] a that show ?thesis
        by (auto split: if_splits)
    qed
    show ?thesis
    proof (cases ex)
      case None
      with False res mac fm have eq: "add_new_client m n x = ?fin m2"
        by (simp add: add_new_client_def)
      from after_add [of m2] assms s2 show ?thesis
        unfolding eq by (blast intro: suffix_order.trans)
    next
      case (Some e)
      show ?thesis
      proof (cases "is_unauthorized_user (comment e)")
        case no: False
        with False res mac fm Some assms show ?thesis
          by (simp add: add_new_client_def)
      next
        case True
        obtain deleted m3 where del: "delete_ip_binding_by_id m2 (bid e) = (deleted, m3)"
          by (cases "delete_ip_binding_by_id m2 (bid e)")
        have s3: "suffix (failures m3) (failures m)"
          using delete_ip_binding_by_id_suffix [OF del] s2 by (rule suffix_order.trans)
        show ?thesis
        proof (cases deleted)
          case False
          with \<open>\<not> find_client_in_ip_bindings (clients_cache m) n \<noteq> None\<close> res mac fm Some True del
            assms show ?thesis
            by (simp add: add_new_client_def)
        next
          case d: True
          let ?m4 = "refresh_clients_cache m3"
          have s4: "suffix (failures ?m4) (failures m)"
            using refresh_suffix s3 by (rule suffix_order.trans)
          have eq: "add_new_client m n x = ?fin ?m4"
            using False res mac fm Some True del d by (simp add: add_new_client_def)
          from after_add [of ?m4] assms s4 show ?thesis
            unfolding eq by (blast intro: suffix_order.trans)
        qed
      qed
    qed
  qed
qed


lemma update_client_mac_final_refresh:
  assumes "fst (update_client_mac m n x) = (True, None)"
  shows "\<exists>m5. snd (update_client_mac m n x) = refresh_clients_cache m5 \<and>
              suffix (failures m5) (failures m)"
proof (cases "find_client_in_ip_bindings (clients_cache m) n")
  case None
  with assms show ?thesis by (simp add: update_client_mac_def)
next
  case (Some b)
  obtain mo m1 where res: "(if is_ip_address x then find_mac_by_ip m x else (Some x, m)) = (mo, m1)"
    by (cases "if is_ip_address x then find_mac_by_ip m x else (Some x, m)")
  note s1 = resolve_suffix [OF res]
  show ?thesis
  proof (cases mo)
    case None
    with Some res assms show ?thesis by (simp add: update_client_mac_def)
  next
    case mac: (Some mac)
    obtain ex m2 where fm: "find_mac_in_ip_bindings m1 mac = (ex, m2)"
      by (cases "find_mac_in_ip_bindings m1 mac")
    have s2: "suffix (failures m2) (failures m)"
      using find_mac_in_ip_bindings_suffix [OF fm] s1 by (rule suffix_order.trans)
    let ?fin = "\<lambda>m4. (let is_blocked = (btype b = ''blocked'') in
                       case (if is_blocked
                             then set_ip_binding (bid b)
                                    (\<lambda>b. b\<lparr>mac_address := mac, btype := ''bypassed''\<rparr>) m4
                             else set_ip_binding (bid b)
                                    (\<lambda>b. b\<lparr>mac_address := mac\<rparr>) m4) of
                         (raised, m5) \<Rightarrow>
                           if raised then ((False, Some ''Wrong-MAC''), m5)
                           else ((True, None), refresh_clients_cache m5))"
    have after_set: "\<exists>m5. snd (?fin m4) = refresh_clients_cache m5 \<and>
                          suffix (failures m5) (failures m4)"
      if ok: "fst (?fin m4) = (True, None)" for m4
    proof (cases "btype b = ''blocked''")
      case True
      obtain r m5 where a: "set_ip_binding (bid b)
          (\<lambda>b. b\<lparr>mac_address := mac, btype := ''bypassed''\<rparr>) m4 = (r, m5)"
        by (cases "set_ip_binding (bid b) (\<lambda>b. b\<lparr>mac_address := mac, btype := ''bypassed''\<rparr>) m4")
      from set_ip_binding_suffix [OF a] a True ok show ?thesis
        by (auto split: if_splits)
    next
      case False
      obtain r m5 where a: "set_ip_binding (bid b) (\<lambda>b. b\<lparr>mac_address := mac\<rparr>) m4 = (r, m5)"
        by (cases "set_ip_binding (bid b) (\<lambda>b. b\<lparr>mac_address := mac\<rparr>) m4")
      from set_ip_binding_suffix [OF a] a False ok show ?thesis
        by (auto split: if_splits)
    qed
    show ?thesis
    proof (cases "\<exists>e. ex = Some e \<and> bid e \<noteq> bid b")
      case False
      then have eq: "update_client_mac m n x = ?fin m2"
        using Some res mac fm by (cases ex) (auto simp: update_client_mac_def)
      from after_set [of m2] assms s2 show ?thesis
        unfolding eq by (blast intro: suffix_order.trans)
    next
      case True
      then obtain e where e: "ex = Some e" "bid e \<noteq> bid b" by blast
      show ?thesis
      proof (cases "is_unauthorized_user (comment e)")
        case no: False
        with Some res mac fm e assms show ?thesis
          by (simp add: update_client_mac_def)
      next
        case un: True
        obtain deleted m3 where del: "delete_ip_binding_by_id m2 (bid e) = (deleted, m3)"
          by (cases "delete_ip_binding_by_id m2 (bid e)")
        have s3: "suffix (failures m3) (failures m)"
          using delete_ip_binding_by_id_suffix [OF del] s2 by (rule suffix_order.trans)
        show ?thesis
        proof (cases deleted)
          case False
          with Some res mac fm e un del assms show ?thesis
            by (simp add: update_client_mac_def)
        next
          case d: True
          let ?m4 = "refresh_clients_cache m3"
          have s4: "suffix (failures ?m4) (failures m)"
            using refresh_suffix s3 by (rule suffix_order.trans)
          have eq: "update_client_mac m n x = ?fin ?m4"
            using Some res mac fm e un del d by (simp add: update_client_mac_def)
          from after_set [of ?m4] assms s4 show ?thesis
            unfolding eq by (blast intro: suffix_order.trans)
        qed
      qed
    qed
  qed
qed

lemma final_refresh_answered:
  assumes "\<exists>m5. m' = refresh_clients_cache m5 \<and> suffix (failures m5) (failures m)"
    and "failures m = []"
  shows "clients_cache m' = load_clients_loop (ip_bindings m') []"
proof -
  from assms obtain m5 where m5: "m' = refresh_clients_cache m5" "failures m5 = []"
    by auto
  then show ?thesis by (simp add: refresh_answered)
qed

text \<open>
  C4 (as amended).  For \<open>add_new_client\<close>, \<open>update_client_mac\<close>, \<open>update_client_name\<close> and
  \<open>update_client_phone\<close>: when the operation succeeds, the cache it leaves is the result of
  \<open>_load_clients\<close> on the bindings the router then holds (the directory built from them when
  the router answers every call, the empty dict when the last listing raised).  When a rename
  fails, bindings and cache are what they were.  When \<open>add_new_client\<close> or \<open>update_client_mac\<close>
  fails, bindings and cache are what they were, unless an unauthorized placeholder had
  already been removed: then that binding is gone and the cache was rebuilt after its
  removal.
\<close>

theorem mutations_refresh_directory:
  "(fst (add_new_client m n x) = (True, None) \<longrightarrow>
      directory_rebuilt (snd (add_new_client m n x)) \<and>
      (failures m = [] \<longrightarrow>
         clients_cache (snd (add_new_client m n x)) =
           load_clients_loop (ip_bindings (snd (add_new_client m n x))) [])) \<and>
   (fst (update_client_mac m n x) = (True, None) \<longrightarrow>
      directory_rebuilt (snd (update_client_mac m n x)) \<and>
      (failures m = [] \<longrightarrow>
         clients_cache (snd (update_client_mac m n x)) =
           load_clients_loop (ip_bindings (snd (update_client_mac m n x))) [])) \<and>
   (fst (update_client_name m n x) = (True, None) \<longrightarrow>
      directory_rebuilt (snd (update_client_name m n x)) \<and>
      (failures m = [] \<longrightarrow>
         clients_cache (snd (update_client_name m n x)) =
           load_clients_loop (ip_bindings (snd (update_client_name m n x))) [])) \<and>
   (fst (update_client_phone m n x) = (True, None) \<longrightarrow>
      directory_rebuilt (snd (update_client_phone m n x)) \<and>
      (failures m = [] \<longrightarrow>
         clients_cache (snd (update_client_phone m n x)) =
           load_clients_loop (ip_bindings (snd (update_client_phone m n x))) [])) \<and>
   (\<not> fst (fst (add_new_client m n x)) \<longrightarrow>
      (clients_cache (snd (add_new_client m n x)) = clients_cache m \<and>
       ip_bindings (snd (add_new_client m n x)) = ip_bindings m) \<or>
      placeholder_removed m (snd (add_new_client m n x))) \<and>
   (\<not> fst (fst (update_client_mac m n x)) \<longrightarrow>
      (clients_cache (snd (update_client_mac m n x)) = clients_cache m \<and>
       ip_bindings (snd (update_client_mac m n x)) = ip_bindings m) \<or>
      placeholder_removed m (snd (update_client_mac m n x))) \<and>
   (\<not> fst (fst (update_client_name m n x)) \<longrightarrow>
      clients_cache (snd (update_client_name m n x)) = clients_cache m \<and>
      ip_bindings (snd (update_client_name m n x)) = ip_bindings m) \<and>
   (\<not> fst (fst (update_client_phone m n x)) \<longrightarrow>
      clients_cache (snd (update_client_phone m n x)) = clients_cache m \<and>
      ip_bindings (snd (update_client_phone m n x)) = ip_bindings m)"
proof -
  have 1: "fst (add_new_client m n x) = (True, None) \<longrightarrow>
      directory_rebuilt (snd (add_new_client m n x)) \<and>
      (failures m = [] \<longrightarrow>
         clients_cache (snd (add_new_client m n x)) =
           load_clients_loop (ip_bindings (snd (add_new_client m n x))) [])"
    using add_new_client_refresh [of m n x]
      final_refresh_answered [OF add_new_client_final_refresh, of m n x] by blast
  have 2: "fst (update_client_mac m n x) = (True, None) \<longrightarrow>
      directory_rebuilt (snd (update_client_mac m n x)) \<and>
      (failures m = [] \<longrightarrow>
         clients_cache (snd (update_client_mac m n x)) =
           load_clients_loop (ip_bindings (snd (update_client_mac m n x))) [])"
    using update_client_mac_refresh [of m n x]
      final_refresh_answered [OF update_client_mac_final_refresh, of m n x] by blast
  have 3: "fst (update_client_name m n x) = (True, None) \<longrightarrow>
      directory_rebuilt (snd (update_client_name m n x)) \<and>
      (failures m = [] \<longrightarrow>
         clients_cache (snd (update_client_name m n x)) =
           load_clients_loop (ip_bindings (snd (update_client_name m n x))) [])"
    using update_client_name_refresh [of m n x]
      final_refresh_answered [OF update_client_name_final_refresh, of m n x] by blast
  have 4: "fst (update_client_phone m n x) = (True, None) \<longrightarrow>
      directory_rebuilt (snd (update_client_phone m n x)) \<and>
      (failures m = [] \<longrightarrow>
         clients_cache (snd (update_client_phone m n x)) =
           load_clients_loop (ip_bindings (snd (update_client_phone m n x))) [])"
    using update_client_phone_refresh [of m n x]
      final_refresh_answered [OF update_client_phone_final_refresh, of m n x] by blast
  show ?thesis
    by (intro conjI 1 2 3 4 conjunct2 [OF add_new_client_refresh]
        conjunct2 [OF update_client_mac_refresh] conjunct2 [OF update_client_name_refresh]
        conjunct2 [OF update_client_phone_refresh])
qed

theorem mutations_refresh_directory_witness:
  "fst (add_new_client (example_router [example_ali_1, example_placeholder]) ''Omar''
          ''aa:bb:cc:dd:ee:09'') = (True, None) \<and>
   clients_cache (snd (add_new_client (example_router [example_ali_1, example_placeholder])
          ''Omar'' ''aa:bb:cc:dd:ee:09'')) =
     load_clients_loop (ip_bindings (snd (add_new_client
          (example_router [example_ali_1, example_placeholder]) ''Omar''
          ''aa:bb:cc:dd:ee:09''))) [] \<and>
   \<not> fst (fst (update_client_name (example_router [example_ali_1, example_placeholder])
          ''Nobody'' ''Omar'')) \<and>
   clients_cache (snd (update_client_name (example_router [example_ali_1, example_placeholder])
          ''Nobody'' ''Omar'')) =
     clients_cache (example_router [example_ali_1, example_placeholder])"
proof -
  let ?m = "example_router [example_ali_1, example_placeholder]"
  have s: "fst (add_new_client ?m ''Omar'' ''aa:bb:cc:dd:ee:09'') = (True, None)"
    by code_simp
  have f: "\<not> fst (fst (update_client_name ?m ''Nobody'' ''Omar''))"
    by code_simp
  have ok: "failures ?m = []" by simp
  have 1: "clients_cache (snd (add_new_client ?m ''Omar'' ''aa:bb:cc:dd:ee:09'')) =
     load_clients_loop (ip_bindings (snd (add_new_client ?m ''Omar'' ''aa:bb:cc:dd:ee:09''))) []"
    using mutations_refresh_directory [of ?m "''Omar''" "''aa:bb:cc:dd:ee:09''"] s ok by blast
  have 2: "clients_cache (snd (update_client_name ?m ''Nobody'' ''Omar'')) = clients_cache ?m"
    using mutations_refresh_directory [of ?m "''Nobody''" "''Omar''"] f by blast
  from s f 1 2 show ?thesis by blast
qed

theorem failed_create_changes_directory_counterexample:
  "fst (add_new_client
          ((example_router [example_ali_1, example_placeholder])
             \<lparr>failures := [False, False, False, True]\<rparr>)
          ''Omar'' ''AA:BB:CC:DD:EE:09'') = (False, Some ''Wrong-MAC'') \<and>
   map fst (clients_cache (example_router [example_ali_1, example_placeholder]))
     = [''Ali'', ''ZZZZ=Blocked unauthorized 2024''] \<and>
   map fst (clients_cache (snd (add_new_client
          ((example_router [example_ali_1, example_placeholder])
             \<lparr>failures := [False, False, False, True]\<rparr>)
          ''Omar'' ''AA:BB:CC:DD:EE:09''))) = [''Ali'']"
  by code_simp

text \<open>
  \<open>block_client\<close> and \<open>activate_client\<close> change the type of a binding on the router and
  return without \<open>refresh_clients_cache\<close>: after a successful block the cache still shows
  the client as \<open>bypassed\<close>, and \<open>is_client_active\<close> answers from that cache.
\<close>

theorem block_client_keeps_stale_directory:
  "fst (block_client (example_router [example_ali_1]) ''Ali'') \<and>
   map btype (ip_bindings (snd (block_client (example_router [example_ali_1]) ''Ali'')))
     = [''blocked''] \<and>
   clients_cache (snd (block_client (example_router [example_ali_1]) ''Ali''))
     = [(''Ali'', example_ali_1)] \<and>
   load_clients_loop (ip_bindings (snd (block_client (example_router [example_ali_1]) ''Ali''))) []
     = [(''Ali'', example_ali_1\<lparr>btype := ''blocked''\<rparr>)] \<and>
   is_client_active (clients_cache (snd (block_client (example_router [example_ali_1]) ''Ali'')))
     ''Ali''"
  by code_simp

section \<open>The status written back\<close>

text \<open>
  C3.  For the same label \<open>NOT-PAY\<close>, the \<open>NEW=\<close>, \<open>UPD-MAC=\<close> and \<open>ACTIVATE=\<close> branches of
  \<open>process_client\<close> write the display label \<open>Not Pay\<close>, and the \<open>LIMIT=\<close> branch writes the
  label as it stands.  (Status column 1 of the data block is sheet column D; row index 0 is
  sheet row 2.)
\<close>

theorem limit_writes_not_pay_unaliased:
  "updates (fst (process_client (2026, 1, 1) \<lparr>updates = [], sheet_failures = []\<rparr>
       (example_router [example_ali_1]) ''Ali'' ''LIMIT=NOT-PAY''
       \<lparr>bname = ''B1'', client_col = 0, status_col = 1, notes_col = 2\<rparr> 0
       [[''Ali'', ''LIMIT=NOT-PAY'', ''5-6-2026'']]))
     = [(''Payment!D2'', ''NOT-PAY'')] \<and>
   updates (fst (process_client (2026, 1, 1) \<lparr>updates = [], sheet_failures = []\<rparr>
       (example_router [example_ali_1]) ''Omar'' ''NEW=NOT-PAY''
       \<lparr>bname = ''B1'', client_col = 0, status_col = 1, notes_col = 2\<rparr> 0
       [[''Omar'', ''NEW=NOT-PAY'', ''11:22:33:44:55:66'']]))
     = [(''Payment!D2'', ''Not Pay'')] \<and>
   updates (fst (process_client (2026, 1, 1) \<lparr>updates = [], sheet_failures = []\<rparr>
       (example_router [example_ali_1]) ''Ali'' ''UPD-MAC=NOT-PAY''
       \<lparr>bname = ''B1'', client_col = 0, status_col = 1, notes_col = 2\<rparr> 0
       [[''Ali'', ''UPD-MAC=NOT-PAY'', ''11:22:33:44:55:66'']]))
     = [(''Payment!D2'', ''Not Pay'')] \<and>
   updates (fst (process_client (2026, 1, 1) \<lparr>updates = [], sheet_failures = []\<rparr>
       (example_router [example_ali_1]) ''Ali'' ''ACTIVATE=NOT-PAY''
       \<lparr>bname = ''B1'', client_col = 0, status_col = 1, notes_col = 2\<rparr> 0
       [[''Ali'', ''ACTIVATE=NOT-PAY'', []]]))
     = [(''Payment!D2'', ''Not Pay'')]"
  by code_simp

section \<open>Column letters are bijective base 26\<close>

declare get_column_letter_loop.simps [simp del]

lemma get_column_letter_loop_append:
  "get_column_letter_loop i r = get_column_letter_loop i [] @ r"
proof (induction "nat (i + 1)" arbitrary: i r rule: less_induct)
  case less
  show ?case
  proof (cases "0 \<le> i")
    case True
    let ?j = "i div 26 - 1"
    let ?c = "char_of (65 + i mod 26)"
    have "nat (?j + 1) < nat (i + 1)" using True by simp
    then have IH: "get_column_letter_loop ?j q = get_column_letter_loop ?j [] @ q" for q
      using less.hyps by blast
    have "get_column_letter_loop i r = get_column_letter_loop ?j (?c # r)"
      using True by (subst get_column_letter_loop.simps) simp
    also have "\<dots> = get_column_letter_loop ?j [] @ (?c # r)"
      by (rule IH)
    also have "\<dots> = get_column_letter_loop ?j [?c] @ r"
      by (subst IH [of "[?c]"]) simp
    also have "get_column_letter_loop ?j [?c] = get_column_letter_loop i []"
      using True by (subst (2) get_column_letter_loop.simps) simp
    finally show ?thesis .
  next
    case False
    then show ?thesis by (simp add: get_column_letter_loop.simps)
  qed
qed

lemma get_column_letter_neg: "i < 0 \<Longrightarrow> get_column_letter i = []"
  by (simp add: get_column_letter_def get_column_letter_loop.simps)

lemma get_column_letter_step:
  "0 \<le> i \<Longrightarrow>
   get_column_letter i = get_column_letter (i div 26 - 1) @ [char_of (65 + i mod 26)]"
  unfolding get_column_letter_def
  by (subst get_column_letter_loop.simps, subst get_column_letter_loop_append) simp

lemma letter_value_snoc: "letter_value (s @ [c]) = 26 * letter_value s + (of_char c - 64)"
  by (simp add: letter_value_def)

lemma of_char_letter: "0 \<le> r \<Longrightarrow> r < 26 \<Longrightarrow> (of_char (char_of (65 + r :: int)) :: int) = 65 + r"
  by simp

lemma letter_value_column: "-1 \<le> i \<Longrightarrow> letter_value (get_column_letter i) = i + 1"
proof (induction "nat (i + 1)" arbitrary: i rule: less_induct)
  case less
  show ?case
  proof (cases "i < 0")
    case True
    with less.prems have "i = -1" by simp
    then show ?thesis by (simp add: get_column_letter_neg letter_value_def)
  next
    case False
    then have nonneg: "0 \<le> i" by simp
    let ?j = "i div 26 - 1"
    have j_lo: "-1 \<le> ?j" using nonneg by (simp add: pos_imp_zdiv_nonneg_iff)
    have "nat (?j + 1) < nat (i + 1)" using nonneg by simp
    then have IH: "letter_value (get_column_letter ?j) = ?j + 1"
      using less.hyps j_lo by blast
    have r: "0 \<le> i mod 26" "i mod 26 < 26" by simp_all
    have "letter_value (get_column_letter i) = 26 * (?j + 1) + (65 + i mod 26 - 64)"
      using IH r by (simp add: get_column_letter_step [OF nonneg] letter_value_snoc of_char_letter)
    then show ?thesis by simp
  qed
qed

lemma get_column_letter_letters:
  "0 \<le> i \<Longrightarrow> get_column_letter i \<noteq> [] \<and>
     (\<forall>c \<in> set (get_column_letter i). 65 \<le> (of_char c :: int) \<and> (of_char c :: int) \<le> 90)"
proof (induction "nat (i + 1)" arbitrary: i rule: less_induct)
  case less
  let ?j = "i div 26 - 1"
  have nonneg: "0 \<le> i" by (rule less.prems)
  have r: "0 \<le> i mod 26" "i mod 26 < 26" by simp_all
  have last_ok: "65 \<le> (of_char (char_of (65 + i mod 26)) :: int)
               \<and> (of_char (char_of (65 + i mod 26)) :: int) \<le> 90"
    using r by (simp add: of_char_letter)
  show ?case
  proof (cases "?j < 0")
    case True
    then show ?thesis
      using last_ok by (simp add: get_column_letter_step [OF nonneg] get_column_letter_neg)
  next
    case False
    then have j_lo: "0 \<le> ?j" by simp
    have "nat (?j + 1) < nat (i + 1)" using nonneg by simp
    then have "get_column_letter ?j \<noteq> [] \<and>
      (\<forall>c \<in> set (get_column_letter ?j). 65 \<le> (of_char c :: int) \<and> (of_char c :: int) \<le> 90)"
      using less.hyps j_lo by blast
    then show ?thesis
      using last_ok by (auto simp: get_column_letter_step [OF nonneg])
  qed
qed

text \<open>
  C10.  \<open>get_column_letter\<close> maps 0 to A, 25 to Z, 26 to AA and 27 to AB; for every index
  \<open>i \<ge> 0\<close> the result is a non-empty word over A..Z whose value in bijective base 26 is
  \<open>i + 1\<close>; hence distinct natural-number indices give distinct letter names.
\<close>

theorem get_column_letter_bijective_base26:
  "get_column_letter 0 = ''A'' \<and> get_column_letter 25 = ''Z'' \<and>
   get_column_letter 26 = ''AA'' \<and> get_column_letter 27 = ''AB'' \<and>
   (\<forall>i. 0 \<le> i \<longrightarrow>
      get_column_letter i \<noteq> [] \<and>
      (\<forall>c \<in> set (get_column_letter i). 65 \<le> (of_char c :: int) \<and> (of_char c :: int) \<le> 90) \<and>
      letter_value (get_column_letter i) = i + 1) \<and>
   (\<forall>i j. 0 \<le> i \<longrightarrow> 0 \<le> j \<longrightarrow> get_column_letter i = get_column_letter j \<longrightarrow> i = j)"
proof -
  have ex: "get_column_letter 0 = ''A''" "get_column_letter 25 = ''Z''"
    "get_column_letter 26 = ''AA''" "get_column_letter 27 = ''AB''"
    by (code_simp)+
  have inj: "i = j" if "0 \<le> i" "0 \<le> j" "get_column_letter i = get_column_letter j" for i j
  proof -
    have vi: "letter_value (get_column_letter i) = i + 1"
      using that(1) by (simp add: letter_value_column)
    have vj: "letter_value (get_column_letter j) = j + 1"
      using that(2) by (simp add: letter_value_column)
    have "letter_value (get_column_letter i) = letter_value (get_column_letter j)"
      by (rule arg_cong [OF that(3)])
    then have "i + 1 = j + 1" by (simp only: vi vj)
    then show ?thesis by simp
  qed
  have val: "letter_value (get_column_letter i) = i + 1" if "0 \<le> i" for i
    using that by (simp add: letter_value_column)
  show ?thesis
    by (intro conjI allI impI ex inj conjunct1 [OF get_column_letter_letters]
        conjunct2 [OF get_column_letter_letters] val) assumption+
qed

theorem get_column_letter_bijective_base26_witness:
  "get_column_letter 701 = ''ZZ'' \<and> letter_value ''ZZ'' = 702 \<and>
   get_column_letter 702 = ''AAA'' \<and> get_column_letter 701 \<noteq> get_column_letter 702"
proof -
  have a: "get_column_letter 701 = ''ZZ''" "get_column_letter 702 = ''AAA''"
    by (code_simp)+
  have "(0::int) \<le> 701" "(0::int) \<le> 702" by simp_all
  then have "letter_value (get_column_letter 701) = 701 + 1"
    and "get_column_letter 701 = get_column_letter 702 \<longrightarrow> (701::int) = 702"
    using get_column_letter_bijective_base26 by blast+
  then show ?thesis using a by simp
qed

end
